theory Spec2Isabelle
  imports Main "HOL-Library.Sublist"
begin

section \<open>Data model\<close>

text \<open>
  The loop-fusion core of PyOP2 (\<^verbatim>\<open>pyop2/fusion/transformer.py\<close>) works on
  parallel loops: a kernel, an iteration space and a list of arguments, each argument
  a data reference with an access mode, reached directly or through maps.
\<close>

datatype access = READ | WRITE | RW | INC | MINacc | MAXacc

text \<open>
  Iteration sets. A \<^verbatim>\<open>Subset\<close> carries its superset and its index list. The optional
  fields stand for attributes the source probes with \<^verbatim>\<open>hasattr\<close>
  (\<^verbatim>\<open>_deep_size\<close>, \<^verbatim>\<open>_partitioning\<close>, \<^verbatim>\<open>subset\<close>).
\<close>

datatype op2set =
  is_Set: Set (name: string) (core_size: int) (exec_size: int) (total_size: int)
      (deep_size: "(int \<times> int \<times> int \<times> int) list option")
      (partitioning: "nat list option")
      (subset: "op2set option")
| is_Subset: Subset (superset: op2set) (indices: "nat list")
      (name: string) (core_size: int) (exec_size: int) (total_size: int)
      (deep_size: "(int \<times> int \<times> int \<times> int) list option")
      (partitioning: "nat list option")
      (subset: "op2set option")

datatype pmap =
  Map (mname: string) (iterset: op2set) (toset: op2set) (arity: nat)
      (values_with_halo: "nat list") (factors: "pmap list")

text \<open>
  Modelled from the spec: the class \<^verbatim>\<open>base.Arg\<close> is not part of the sources at
  hand. An argument is global, direct (a Dat with no map), indirect (a Dat with one
  map) or a matrix (two maps); \<^verbatim>\<open>_is_direct\<close> and \<^verbatim>\<open>_is_indirect\<close> read this shape.
\<close>

datatype arg_shape = Global | Direct | Indirect pmap | Matrix pmap pmap

record arg =
  data :: nat
  access :: access
  shape :: arg_shape

definition is_direct :: "arg \<Rightarrow> bool" where
  "is_direct a = (shape a = Direct)"

definition is_indirect :: "arg \<Rightarrow> bool" where
  "is_indirect a = (case shape a of Indirect m \<Rightarrow> True | _ \<Rightarrow> False)"


record itspace =
  its_iterset :: op2set
  extents :: "nat list"

subsection \<open>Kernels and their ASTs\<close>

text \<open>
  The kernel ASTs come from the COFFEE library. What the fusion code touches is kept:
  symbols, flat text blocks, generic inner nodes, declarations (a type and the name of
  the declared symbol) and function declarations (name, parameters, body statements).
  A kernel AST is a list of preprocessor lines and the function declarations found
  by \<^verbatim>\<open>FindInstances(ast.FunDecl)\<close>, in visiting order.
\<close>

datatype node = Symbol string | FlatBlock string | Node string "node list"

datatype decl = Decl (d_typ: string) (d_sym: string)

record fundecl =
  fd_ret :: string
  fd_name :: string
  fd_args :: "decl list"
  fd_body :: "node list"

record kast =
  headers :: "string list"
  fundecls :: "fundecl list"

record kernel =
  kname :: string
  code :: "string option"
  original_ast :: kast
  ast :: kast

record loop =
  kernel :: kernel
  it_space :: itspace
  args :: "arg list"

section \<open>Dependency analysis: \<^verbatim>\<open>loops_analyzer\<close>\<close>

definition reads :: "loop \<Rightarrow> arg set" where
  "reads l = set (filter (\<lambda>a. access a \<in> set [READ, RW]) (args l))"

definition writes :: "loop \<Rightarrow> arg set" where
  "writes l = set (filter (\<lambda>a. access a \<in> set [RW, WRITE, MINacc, MAXacc]) (args l))"

definition incs :: "loop \<Rightarrow> arg set" where
  "incs l = set (filter (\<lambda>a. access a \<in> set [INC]) (args l))"

definition all_reads :: "loop \<Rightarrow> nat set" where
  "all_reads l = data ` reads l"

definition all_writes :: "loop \<Rightarrow> nat set" where
  "all_writes l = data ` writes l"

definition all_incs :: "loop \<Rightarrow> nat set" where
  "all_incs l = data ` incs l"

definition all_inc_writes :: "loop \<Rightarrow> nat set" where
  "all_inc_writes l = data ` (incs l \<union> writes l)"

definition dir_reads :: "loop \<Rightarrow> nat set" where
  "dir_reads l = data ` Set.filter is_direct (reads l)"

definition dir_writes :: "loop \<Rightarrow> nat set" where
  "dir_writes l = data ` Set.filter is_direct (writes l)"

definition dir_incs :: "loop \<Rightarrow> nat set" where
  "dir_incs l = data ` Set.filter is_direct (incs l)"

definition dir_inc_writes :: "loop \<Rightarrow> nat set" where
  "dir_inc_writes l = data ` Set.filter is_direct (incs l \<union> writes l)"

definition ind_reads :: "loop \<Rightarrow> nat set" where
  "ind_reads l = data ` Set.filter is_indirect (reads l)"

definition ind_writes :: "loop \<Rightarrow> nat set" where
  "ind_writes l = data ` Set.filter is_indirect (writes l)"

definition ind_incs :: "loop \<Rightarrow> nat set" where
  "ind_incs l = data ` Set.filter is_indirect (incs l)"

definition ind_inc_writes :: "loop \<Rightarrow> nat set" where
  "ind_inc_writes l = data ` Set.filter is_indirect (incs l \<union> writes l)"

record info =
  homogeneous :: bool
  heterogeneous :: bool
  direct_raw :: bool
  direct_war :: bool
  direct_waw :: bool
  direct_w :: bool
  indirect_raw :: bool
  indirect_war :: bool
  indirect_waw :: bool
  indirect_w :: bool
  pure_iai :: bool

definition loops_analyzer :: "loop \<Rightarrow> loop \<Rightarrow> info" where
  "loops_analyzer loop1 loop2 =
    (let hom = (it_space loop1 = it_space loop2);
         het = (\<not> hom);
         d_raw = (hom \<and> dir_inc_writes loop1 \<inter> dir_reads loop2 \<noteq> {});
         d_war = (hom \<and> dir_reads loop1 \<inter> dir_inc_writes loop2 \<noteq> {});
         d_waw = (hom \<and> dir_inc_writes loop1 \<inter> dir_inc_writes loop2 \<noteq> {});
         i_raw = ((hom \<and> ind_inc_writes loop1 \<inter> ind_reads loop2 \<noteq> {}) \<or>
                  (het \<and> all_writes loop1 \<inter> all_reads loop2 \<noteq> {}));
         i_war = ((hom \<and> ind_reads loop1 \<inter> ind_inc_writes loop2 \<noteq> {}) \<or>
                  (het \<and> all_reads loop1 \<inter> all_writes loop2 \<noteq> {}));
         i_waw = ((hom \<and> ind_inc_writes loop1 \<inter> ind_inc_writes loop2 \<noteq> {}) \<or>
                  (het \<and> all_writes loop1 \<inter> all_writes loop2 \<noteq> {}))
     in \<lparr> homogeneous = hom, heterogeneous = het,
          direct_raw = d_raw, direct_war = d_war, direct_waw = d_waw,
          direct_w = (d_raw \<or> d_war \<or> d_waw),
          indirect_raw = i_raw, indirect_war = i_war, indirect_waw = i_waw,
          indirect_w = (i_raw \<or> i_war \<or> i_waw),
          pure_iai =
            (all_incs loop1 \<inter> all_incs loop2 \<noteq> {} \<and>
             all_writes loop1 \<inter> all_reads loop2 = {} \<and>
             all_reads loop1 \<inter> all_writes loop2 = {} \<and>
             all_writes loop1 \<inter> all_reads loop2 = {}) \<rparr>)"

section \<open>Soft fusion\<close>

text \<open>Python exceptions that the modelled code can raise.\<close>

datatype error =
  IndexError | NameError | UnboundLocalError | AttributeError | RuntimeError | ValueError
  | ZeroDivisionError

subsection \<open>Kernel synthesis: \<^verbatim>\<open>build_soft_fusion_kernel\<close>\<close>

text \<open>The decimal text of a number, as \<^verbatim>\<open>"%d"\<close> prints it.\<close>

fun string_of_nat :: "nat \<Rightarrow> string" where
  "string_of_nat n =
     (if n < 10 then [''0123456789'' ! n]
      else string_of_nat (n div 10) @ [''0123456789'' ! (n mod 10)])"

declare string_of_nat.simps [simp del]

text \<open>\<^verbatim>\<open>k._original_ast if k._code else k._ast\<close>: a code string is true when it is not empty.\<close>

definition select_ast :: "kernel \<Rightarrow> kast" where
  "select_ast k = (if code k \<noteq> None \<and> code k \<noteq> Some [] then original_ast k else ast k)"

text \<open>\<^verbatim>\<open>FindInstances(ast.FunDecl).visit(a)[ast.FunDecl][0]\<close>\<close>

definition find_fundecl :: "kast \<Rightarrow> error + fundecl" where
  "find_fundecl a = (case fundecls a of [] \<Rightarrow> Inl IndexError | f # _ \<Rightarrow> Inr f)"

fun rename_node :: "(string \<Rightarrow> string) \<Rightarrow> node \<Rightarrow> node" where
  "rename_node r (Symbol s) = Symbol (r s)"
| "rename_node r (FlatBlock t) = FlatBlock t"
| "rename_node r (Node k cs) = Node k (map (rename_node r) cs)"

definition rename_decl :: "(string \<Rightarrow> string) \<Rightarrow> decl \<Rightarrow> decl" where
  "rename_decl r d = Decl (d_typ d) (r (d_sym d))"

text \<open>
  Step 3 of the source, the renaming loop. \<^verbatim>\<open>fuse_symbols\<close> is computed once, before
  any renaming, so it groups the symbol objects of the fused-in AST (those of the
  parameter declarations included) by their original name; each pass of the loop
  looks up the current name of a parameter and appends the suffix, in place, to every
  symbol of that group. All symbols of a group carry the same current name at any
  time, so the state of the loop is the function \<open>ren\<close> from original names to
  current names.
\<close>

fun uniquify :: "nat \<Rightarrow> decl list \<Rightarrow> (string \<Rightarrow> string) \<Rightarrow> (string \<Rightarrow> string)" where
  "uniquify unique_id [] ren = ren"
| "uniquify unique_id (d # ds) ren =
     (let key = ren (d_sym d)
      in uniquify unique_id ds (ren(key := ren key @ ''_'' @ string_of_nat unique_id)))"

definition marker :: string where
  "marker = [CHR 0x0A, CHR 0x0A] @ ''// Fused kernel: '' @ [CHR 0x0A, CHR 0x0A]"

text \<open>
  The loop over \<^verbatim>\<open>enumerate(fuse_asts, 1)\<close>. The parameters appended in step 2 are the
  very objects renamed in step 3, so the base signature receives them renamed.
\<close>

fun fuse_into :: "fundecl \<Rightarrow> nat \<Rightarrow> kast list \<Rightarrow> error + fundecl" where
  "fuse_into base_fundecl unique_id [] = Inr base_fundecl"
| "fuse_into base_fundecl unique_id (fuse_ast # fuse_asts) =
     (case find_fundecl fuse_ast of
        Inl e \<Rightarrow> Inl e
      | Inr fuse_fundecl \<Rightarrow>
         (let ren = uniquify unique_id (fd_args fuse_fundecl) (\<lambda>n. n)
          in fuse_into
               (base_fundecl\<lparr>
                  fd_name := fd_name base_fundecl @ ''_'' @ fd_name fuse_fundecl,
                  fd_args := fd_args base_fundecl @ map (rename_decl ren) (fd_args fuse_fundecl),
                  fd_body := fd_body base_fundecl @
                     [FlatBlock marker] @ map (rename_node ren) (fd_body fuse_fundecl)\<rparr>)
               (Suc unique_id) fuse_asts))"

text \<open>
  Modelled from the spec: \<^verbatim>\<open>Filter.kernel_args\<close> (\<^verbatim>\<open>filters.py\<close>) is not part of the
  sources at hand. After the bodies are concatenated it eliminates duplicate parameters
  that refer to the same underlying data reference across the merged signature. The
  parameters are bound by position to the arguments of the loops, in chain order; a
  parameter is kept when its argument's data reference has not been met before.
\<close>

fun filter_binding :: "nat list \<Rightarrow> arg list \<Rightarrow> decl list \<Rightarrow> (arg \<times> decl) list" where
  "filter_binding seen (a # as) (d # ds) =
     (if data a \<in> set seen then filter_binding seen as ds
      else (a, d) # filter_binding (data a # seen) as ds)"
| "filter_binding seen as ds = []"

definition kernel_args :: "loop list \<Rightarrow> fundecl \<Rightarrow> fundecl" where
  "kernel_args loops fd =
     fd\<lparr>fd_args := map snd (filter_binding [] (concat (map args loops)) (fd_args fd))\<rparr>"

text \<open>The fused kernel \<^verbatim>\<open>Kernel(kernels, base_ast, loop_chain_index)\<close>.\<close>

record fused_kernel =
  fk_kernels :: "kernel list"
  fk_ast :: kast
  fk_index :: nat

definition build_soft_fusion_kernel :: "loop list \<Rightarrow> nat \<Rightarrow> error + fused_kernel" where
  "build_soft_fusion_kernel loops loop_chain_index =
     (let kernels = map kernel loops;
          asts = map select_ast kernels
      in case asts of
           [] \<Rightarrow> Inl IndexError
         | base_ast # fuse_asts \<Rightarrow>
            (case find_fundecl base_ast of
               Inl e \<Rightarrow> Inl e
             | Inr base_fundecl \<Rightarrow>
                (case fuse_into base_fundecl 1 fuse_asts of
                   Inl e \<Rightarrow> Inl e
                 | Inr fused \<Rightarrow>
                    Inr \<lparr>fk_kernels = kernels,
                         fk_ast = base_ast\<lparr>fundecls :=
                            kernel_args loops fused # tl (fundecls base_ast)\<rparr>,
                         fk_index = loop_chain_index\<rparr>)))"

subsection \<open>Grouping: \<^verbatim>\<open>Inspector._soft_fuse\<close>\<close>

text \<open>
  The loop over \<^verbatim>\<open>enumerate(loop_chain[1:])\<close>, with the lists \<^verbatim>\<open>handled\<close> and
  \<^verbatim>\<open>fusing\<close> as state; \<open>n\<close> is \<^verbatim>\<open>len(loop_chain)\<close>. The last equation is
  the flush of the remainder after the loop.
\<close>

fun soft_fuse_scan ::
  "nat \<Rightarrow> (fused_kernel \<times> nat) list \<Rightarrow> loop list \<Rightarrow> nat \<Rightarrow> loop list
     \<Rightarrow> error + (fused_kernel \<times> nat) list" where
  "soft_fuse_scan n handled fusing i (loop # rest) =
     (if fusing = [] then Inl IndexError
      else
       (let base_loop = last fusing;
            info = loops_analyzer base_loop loop
        in if heterogeneous info \<or> indirect_w info then
             (case build_soft_fusion_kernel fusing (length handled) of
                Inl e \<Rightarrow> Inl e
              | Inr fused_kernel \<Rightarrow>
                  soft_fuse_scan n (handled @ [(fused_kernel, i + 1)]) [loop] (i + 1) rest)
           else soft_fuse_scan n handled (fusing @ [loop]) (i + 1) rest))"
| "soft_fuse_scan n handled fusing i [] =
     (if fusing \<noteq> [] then
        (case build_soft_fusion_kernel fusing (length handled) of
           Inl e \<Rightarrow> Inl e
         | Inr fused_kernel \<Rightarrow> Inr (handled @ [(fused_kernel, n)]))
      else Inr handled)"

definition soft_fuse :: "loop list \<Rightarrow> error + (fused_kernel \<times> nat) list" where
  "soft_fuse loop_chain =
     (case loop_chain of
        [] \<Rightarrow> Inl IndexError
      | l0 # rest \<Rightarrow> soft_fuse_scan (length loop_chain) [] [l0] 0 rest)"

section \<open>Hard fusion: the search for fusible pairs\<close>

text \<open>
  Python sets have no specified iteration order. Where the source iterates over a set
  (\<^verbatim>\<open>incs(base_loop) | incs(loop)\<close>, \<^verbatim>\<open>maps\<close>) the model lists the elements in
  the order of their first occurrence. Which of several connecting maps, or of several
  shared INC arguments, the source picks with \<^verbatim>\<open>[0]\<close> depends on that order.
\<close>

definition inc_args :: "loop \<Rightarrow> arg list" where
  "inc_args l = filter (\<lambda>a. access a \<in> set [INC]) (args l)"

definition common_incs :: "loop \<Rightarrow> loop \<Rightarrow> arg list" where
  "common_incs base_loop loop =
     (let base_inc_dats = data ` incs base_loop;
          loop_inc_dats = data ` incs loop;
          common_inc_dats = base_inc_dats \<union> loop_inc_dats
      in filter (\<lambda>a. data a \<in> common_inc_dats)
           (remdups (inc_args base_loop @ inc_args loop)))"

definition fusion_maps :: "arg list \<Rightarrow> pmap list" where
  "fusion_maps cincs =
     (let maps = remdups (concat (map (\<lambda>a. case shape a of Indirect m \<Rightarrow> [m] | _ \<Rightarrow> []) cincs))
      in remdups (maps @ concat (map factors maps)))"

definition fusion_map_1 :: "loop \<Rightarrow> loop \<Rightarrow> pmap list" where
  "fusion_map_1 base_loop loop =
     (let set1 = its_iterset (it_space base_loop); set2 = its_iterset (it_space loop)
      in filter (\<lambda>m. set1 = iterset m \<and> set2 = toset m)
           (fusion_maps (common_incs base_loop loop)))"

definition fusion_map_2 :: "loop \<Rightarrow> loop \<Rightarrow> pmap list" where
  "fusion_map_2 base_loop loop =
     (let set1 = its_iterset (it_space base_loop); set2 = its_iterset (it_space loop)
      in filter (\<lambda>m. set1 = toset m \<and> set2 = iterset m)
           (fusion_maps (common_incs base_loop loop)))"

record fusible_pair =
  fp_base :: loop
  fp_fuse :: loop
  fp_map :: pmap
  fp_inc :: arg

text \<open>
  What the body of the inner \<^verbatim>\<open>for\<close> loop does with one candidate: \<^verbatim>\<open>continue\<close>,
  \<^verbatim>\<open>break\<close> with nothing recorded, or append a tuple to \<^verbatim>\<open>fusible\<close> and
  \<^verbatim>\<open>break\<close>.
\<close>

datatype verdict = Continue | Break | Accept fusible_pair

text \<open>The end of the body, once \<^verbatim>\<open>base_loop\<close>, \<^verbatim>\<open>fuse_loop\<close> and \<^verbatim>\<open>fusion_map\<close> are set.\<close>

definition select_pair :: "loop \<Rightarrow> loop \<Rightarrow> pmap \<Rightarrow> arg list \<Rightarrow> error + verdict" where
  "select_pair base_loop fuse_loop fusion_map cincs =
     (if list_ex is_direct (args fuse_loop) then Inr Break
      else
        (case filter (\<lambda>a. a \<in> set (args base_loop)) cincs of
           [] \<Rightarrow> Inl IndexError
         | common_inc # _ \<Rightarrow>
             Inr (Accept \<lparr>fp_base = base_loop, fp_fuse = fuse_loop,
                          fp_map = fusion_map, fp_inc = common_inc\<rparr>)))"

definition examine :: "loop \<Rightarrow> loop \<Rightarrow> error + verdict" where
  "examine base_loop loop =
     (let info = loops_analyzer base_loop loop
      in if homogeneous info then Inr Continue
         else if \<not> pure_iai info then Inr Break
         else if common_incs base_loop loop = [] then Inr Break
         else
           (case fusion_map_1 base_loop loop of
              fusion_map # _ \<Rightarrow>
                select_pair base_loop loop fusion_map (common_incs base_loop loop)
            | [] \<Rightarrow>
               (case fusion_map_2 base_loop loop of
                  fusion_map # _ \<Rightarrow>
                    select_pair loop base_loop fusion_map (common_incs base_loop loop)
                | [] \<Rightarrow> Inr Continue)))"

text \<open>
  The inner loop \<^verbatim>\<open>for i, loop in enumerate(loop_chain[base_loop_index+1:], 1)\<close>.
  The variable \<^verbatim>\<open>i\<close> counts from 1 and survives the loop; the model keeps its
  predecessor: \<open>Some k\<close> stands for \<^verbatim>\<open>i == k + 1\<close> and \<open>None\<close> for a variable
  that was never bound. Every path after the exchange of \<^verbatim>\<open>base_loop\<close> and
  \<^verbatim>\<open>loop\<close> leaves the loop, so the base loop is the same for all candidates.
\<close>

fun scan_candidates ::
  "loop \<Rightarrow> nat \<Rightarrow> loop list \<Rightarrow> nat option \<Rightarrow> error + (nat option \<times> fusible_pair list)" where
  "scan_candidates base_loop k [] i = Inr (i, [])"
| "scan_candidates base_loop k (loop # rest) i =
     (case examine base_loop loop of
        Inl e \<Rightarrow> Inl e
      | Inr Continue \<Rightarrow> scan_candidates base_loop (Suc k) rest (Some k)
      | Inr Break \<Rightarrow> Inr (Some k, [])
      | Inr (Accept p) \<Rightarrow> Inr (Some k, [p]))"

text \<open>
  The outer \<^verbatim>\<open>while\<close> loop. \<^verbatim>\<open>base_loop_index += i\<close> reads \<^verbatim>\<open>i\<close>, which is
  unbound when no candidate was ever examined.
\<close>

function hard_fuse_search ::
  "loop list \<Rightarrow> nat \<Rightarrow> nat option \<Rightarrow> fusible_pair list \<Rightarrow> error + fusible_pair list" where
  "hard_fuse_search loop_chain base_loop_index i fusible =
     (if base_loop_index < length loop_chain then
        (case scan_candidates (loop_chain ! base_loop_index) 0
                (drop (base_loop_index + 1) loop_chain) i of
           Inl e \<Rightarrow> Inl e
         | Inr (i', found) \<Rightarrow>
            (case i' of
               None \<Rightarrow> Inl UnboundLocalError
             | Some k \<Rightarrow>
                 hard_fuse_search loop_chain (base_loop_index + Suc k) i' (fusible @ found)))
      else Inr fusible)"
  by pat_completeness auto
termination
  by (relation "measure (\<lambda>(c, b, i, f). length c - b)") auto

declare hard_fuse_search.simps [simp del]

definition hard_fuse_pairs :: "loop list \<Rightarrow> error + fusible_pair list" where
  "hard_fuse_pairs loop_chain = hard_fuse_search loop_chain 0 None []"

section \<open>The tiling bridge\<close>

text \<open>
  Handles stand for the opaque values that collaborators outside the sources at hand
  return: the kernel and side table of \<^verbatim>\<open>build_hard_fusion_kernel\<close>, the inspection and
  the executor of the SLOPE library.
\<close>

type_synonym handle = nat

text \<open>
  The options of an Inspector, \<^verbatim>\<open>mode\<close> apart. \<open>None\<close> stands for a key that is
  not given; \<^verbatim>\<open>_tile\<close> reads the keys with \<^verbatim>\<open>get\<close> and a default.
\<close>

record options =
  opt_tile_size :: "nat option"
  opt_extra_halo :: "bool option"
  opt_coloring :: "string option"
  opt_use_prefetch :: "nat option"
  opt_use_glb_maps :: "bool option"
  opt_log :: "bool option"

datatype schedule =
  PlainSchedule string "kernel list"
| FusionSchedule string schedule "fused_kernel list" "nat list"
| HardFusionSchedule string schedule "(handle \<times> pmap) list"
| TilingSchedule string schedule "kernel list" handle handle options

record slope_set =
  ss_name :: string
  ss_core :: int
  ss_boundary :: int
  ss_nonexec :: int
  ss_superset :: "string option"

type_synonym insp_sets = "(slope_set \<times> nat list option) list"
type_synonym insp_maps = "(string \<times> (string \<times> string \<times> string \<times> nat list)) list"
type_synonym slope_desc = "(string \<times> access) list"
type_synonym insp_loops = "(string \<times> string \<times> slope_desc) list"

text \<open>
  The collaborators of the Inspector that are not part of the sources at hand enter as
  parameters: the execution mode that \<^verbatim>\<open>slope.get_exec_mode()\<close> reports, the
  application of a schedule to a loop chain (\<^verbatim>\<open>scheduler.py\<close>; the flag is
  \<^verbatim>\<open>only_hard\<close>), and the SLOPE inspector with code generation, compilation and
  execution. The synthesis of a hard-fusion kernel is a parameter as well: only the
  fact that it is called, and that it may fail, matters below.
\<close>

record env =
  get_exec_mode :: string
  apply_schedule :: "schedule \<Rightarrow> bool \<Rightarrow> loop list \<Rightarrow> loop list"
  build_hard_fusion_kernel :: "loop \<Rightarrow> loop \<Rightarrow> pmap \<Rightarrow> nat \<times> nat \<Rightarrow> error + handle"
  slope_inspector ::
    "string \<Rightarrow> insp_sets \<Rightarrow> insp_maps \<Rightarrow> insp_loops \<Rightarrow> options \<Rightarrow> error + handle \<times> handle"

text \<open>
  Assignment to a key of an \<^verbatim>\<open>OrderedDict\<close>; \<^verbatim>\<open>add\<close> on a set. The source turns
  the set of descriptors into a list in hash order; the model keeps the order of
  insertion.
\<close>

fun od_set :: "('k \<times> 'v) list \<Rightarrow> 'k \<Rightarrow> 'v \<Rightarrow> ('k \<times> 'v) list" where
  "od_set [] k v = [(k, v)]"
| "od_set ((k', v') # kvs) k v =
     (if k' = k then (k, v) # kvs else (k', v') # od_set kvs k v)"

definition set_add :: "'a list \<Rightarrow> 'a \<Rightarrow> 'a list" where
  "set_add xs x = (if x \<in> set xs then xs else xs @ [x])"

text \<open>The sizes that \<^verbatim>\<open>create_slope_set\<close> reads, by execution mode.\<close>

definition slope_sizes :: "string \<Rightarrow> op2set \<Rightarrow> bool \<Rightarrow> error + (int \<times> int \<times> int)" where
  "slope_sizes mode op2set extra_halo =
     (if mode \<notin> set [''OMP_MPI'', ''ONLY_MPI''] then
        Inr (core_size op2set, exec_size op2set - core_size op2set,
             total_size op2set - exec_size op2set)
      else
        (case deep_size op2set of
           None \<Rightarrow> Inl AttributeError
         | Some levels \<Rightarrow>
            (case rev levels of
               [] \<Rightarrow> Inl IndexError
             | level_N # before \<Rightarrow>
                (let core = fst level_N;
                     boundary = fst (snd (snd level_N)) - core;
                     nonexec = snd (snd (snd level_N)) - fst (snd (snd level_N))
                 in if extra_halo \<and> nonexec = 0 then
                      (case before of
                         [] \<Rightarrow> Inl IndexError
                       | level_E # _ \<Rightarrow>
                           Inr (core, fst (snd (snd level_E)) - core,
                                snd (snd (snd level_E)) - fst (snd (snd level_E))))
                    else Inr (core, boundary, nonexec)))))"

text \<open>
  \<^verbatim>\<open>create_slope_set\<close>. For a \<^verbatim>\<open>Subset\<close> the source computes the name and then
  evaluates \<^verbatim>\<open>s.superset.name\<close>. The name \<^verbatim>\<open>s\<close> is neither a parameter nor a local
  variable of the function, and the module binds no such name (the names that
  \<^verbatim>\<open>from scheduler import *\<close> brings in are the schedule classes), so this raises
  \<^verbatim>\<open>NameError\<close>.
\<close>

definition create_slope_set ::
  "string \<Rightarrow> op2set \<Rightarrow> bool \<Rightarrow> insp_sets \<Rightarrow> error + (slope_set \<times> insp_sets)" where
  "create_slope_set mode op2set extra_halo insp_sets =
     (if \<not> is_Subset op2set then
        (case slope_sizes mode op2set extra_halo of
           Inl e \<Rightarrow> Inl e
         | Inr (core, boundary, nonexec) \<Rightarrow>
            (let slope_set = \<lparr>ss_name = name op2set, ss_core = core, ss_boundary = boundary,
                               ss_nonexec = nonexec, ss_superset = None\<rparr>
             in Inr (slope_set, od_set insp_sets slope_set (partitioning op2set))))
      else Inl NameError)"

text \<open>
  The registration of the maps of one argument: the loop over
  \<^verbatim>\<open>enumerate(maps)\<close>. Iterating over a map yields the map itself.
\<close>

fun register_maps ::
  "string \<Rightarrow> bool \<Rightarrow> access \<Rightarrow> nat \<Rightarrow> pmap list \<Rightarrow> insp_sets \<times> insp_maps \<times> slope_desc
     \<Rightarrow> error + (insp_sets \<times> insp_maps \<times> slope_desc)" where
  "register_maps mode extra_halo acc i [] st = Inr st"
| "register_maps mode extra_halo acc i (m # ms) (sets, maps, desc) =
     (let map_name = mname m @ string_of_nat i @ ''_'' @ string_of_nat 0;
          maps' = od_set maps (mname m)
             (map_name, name (iterset m), name (toset m), values_with_halo m);
          desc' = set_add desc (map_name, acc)
      in case create_slope_set mode (iterset m) extra_halo sets of
           Inl e \<Rightarrow> Inl e
         | Inr (s1, sets1) \<Rightarrow>
            (case create_slope_set mode (toset m) extra_halo sets1 of
               Inl e \<Rightarrow> Inl e
             | Inr (s2, sets2) \<Rightarrow>
                 register_maps mode extra_halo acc (Suc i) ms (sets2, maps', desc')))"

definition as_tuple :: "arg \<Rightarrow> pmap list" where
  "as_tuple a = (case shape a of Indirect m \<Rightarrow> [m] | Matrix r c \<Rightarrow> [r, c] | _ \<Rightarrow> [])"

fun register_args ::
  "string \<Rightarrow> bool \<Rightarrow> arg list \<Rightarrow> insp_sets \<times> insp_maps \<times> slope_desc
     \<Rightarrow> error + (insp_sets \<times> insp_maps \<times> slope_desc)" where
  "register_args mode extra_halo [] st = Inr st"
| "register_args mode extra_halo (a # as) (sets, maps, desc) =
     (if as_tuple a = [] then
        register_args mode extra_halo as (sets, maps, set_add desc (''DIRECT'', access a))
      else
        (case register_maps mode extra_halo (access a) 0 (as_tuple a) (sets, maps, desc) of
           Inl e \<Rightarrow> Inl e
         | Inr st \<Rightarrow> register_args mode extra_halo as st))"

text \<open>The body of the loop over the chain in \<^verbatim>\<open>_tile\<close>: sets, descriptors, loop.\<close>

definition register_loop ::
  "string \<Rightarrow> bool \<Rightarrow> loop \<Rightarrow> insp_sets \<times> insp_maps \<times> insp_loops
     \<Rightarrow> error + (insp_sets \<times> insp_maps \<times> insp_loops)" where
  "register_loop mode extra_halo loop st =
     (case st of (sets, maps, loops) \<Rightarrow>
      (let iterset0 = its_iterset (it_space loop);
           iterset = (case subset iterset0 of Some sub \<Rightarrow> sub | None \<Rightarrow> iterset0)
       in case create_slope_set mode iterset extra_halo sets of
            Inl e \<Rightarrow> Inl e
          | Inr (slope_set, sets1) \<Rightarrow>
             (case
                (if ss_superset slope_set \<noteq> None \<and> ss_superset slope_set \<noteq> Some [] then
                   (if is_Subset iterset then
                      (case create_slope_set mode (superset iterset) extra_halo sets1 of
                         Inl e \<Rightarrow> Inl e
                       | Inr (sset2, sets2) \<Rightarrow>
                          (let map_name = ss_name slope_set @ ''_tosuperset''
                           in Inr (sets2,
                                   od_set maps (ss_name slope_set)
                                     (map_name, ss_name slope_set, name (superset iterset),
                                      indices iterset),
                                   [(map_name, INC)])))
                    else Inl AttributeError)
                 else Inr (sets1, maps, []))
              of
                Inl e \<Rightarrow> Inl e
              | Inr st1 \<Rightarrow>
                 (case register_args mode extra_halo (args loop) st1 of
                    Inl e \<Rightarrow> Inl e
                  | Inr (sets3, maps3, desc) \<Rightarrow>
                      Inr (sets3, maps3,
                           loops @ [(kname (kernel loop), ss_name slope_set, desc)])))))"

fun register_loops ::
  "string \<Rightarrow> bool \<Rightarrow> loop list \<Rightarrow> insp_sets \<times> insp_maps \<times> insp_loops
     \<Rightarrow> error + (insp_sets \<times> insp_maps \<times> insp_loops)" where
  "register_loops mode extra_halo [] st = Inr st"
| "register_loops mode extra_halo (loop # rest) st =
     (case register_loop mode extra_halo loop st of
        Inl e \<Rightarrow> Inl e
      | Inr st1 \<Rightarrow> register_loops mode extra_halo rest st1)"

section \<open>The Inspector\<close>

text \<open>
  The state of an \<^verbatim>\<open>Inspector\<close> object. \<open>None\<close> in a field stands for an attribute
  that is not set: \<^verbatim>\<open>_ninsps\<close> before the first call of the heuristic, the other
  four after \<^verbatim>\<open>del\<close>.
\<close>

record inspector =
  initialized :: bool
  ninsps :: "nat option"
  i_name :: "string option"
  i_loop_chain :: "loop list option"
  i_mode :: "string option"
  i_options :: "options option"
  i_schedule :: schedule

text \<open>What an inspection leaves behind, beside its result: the passes started and the warnings logged.\<close>

datatype event = SoftFusePass | HardFusePass | TilePass | Warning string

definition modes :: "string list" where
  "modes = [''soft'', ''hard'', ''tile'', ''only_tile'', ''only_omp'']"

text \<open>\<^verbatim>\<open>Inspector.__init__\<close>, with \<^verbatim>\<open>mode\<close> popped from the options.\<close>

definition init :: "inspector \<Rightarrow> string \<Rightarrow> loop list \<Rightarrow> string \<Rightarrow> options \<Rightarrow> inspector" where
  "init st nm loop_chain mode opts =
     (if initialized st then st
      else st\<lparr>i_name := Some nm, i_loop_chain := Some loop_chain, i_mode := Some mode,
              i_options := Some opts,
              i_schedule := PlainSchedule nm (map kernel loop_chain)\<rparr>)"

text \<open>
  Modelled from the spec: the class \<^verbatim>\<open>Cached\<close> (\<^verbatim>\<open>caching.py\<close>) is not part of the
  sources at hand. An Inspector is created once per fingerprint, not initialized, and
  lives in a process-wide cache; a later request with the same fingerprint gets the
  same object, on which \<^verbatim>\<open>__init__\<close> runs again.
\<close>

definition make_obj :: "string \<Rightarrow> loop list \<Rightarrow> string \<Rightarrow> options \<Rightarrow> inspector" where
  "make_obj nm loop_chain mode opts =
     \<lparr>initialized = False, ninsps = None, i_name = Some nm, i_loop_chain = Some loop_chain,
      i_mode = Some mode, i_options = Some opts,
      i_schedule = PlainSchedule nm (map kernel loop_chain)\<rparr>"

definition heuristic_skip_inspection :: "inspector \<Rightarrow> error + (bool \<times> inspector)" where
  "heuristic_skip_inspection st =
     (let n = (case ninsps st of Some c \<Rightarrow> c + 1 | None \<Rightarrow> 1);
          st' = st\<lparr>ninsps := Some n\<rparr>
      in case i_mode st' of
           None \<Rightarrow> Inl AttributeError
         | Some mode \<Rightarrow> Inr (mode \<in> set [''tile'', ''only_tile''] \<and> n < 3, st'))"

text \<open>The four \<^verbatim>\<open>del\<close> statements.\<close>

definition del_fields :: "inspector \<Rightarrow> error + inspector" where
  "del_fields st =
     (if i_name st = None \<or> i_loop_chain st = None \<or> i_mode st = None \<or> i_options st = None
      then Inl AttributeError
      else Inr (st\<lparr>i_name := None, i_loop_chain := None, i_mode := None,
                    i_options := None\<rparr>))"

definition soft_fuse_pass :: "env \<Rightarrow> inspector \<Rightarrow> event list \<times> (error + inspector)" where
  "soft_fuse_pass env st =
     (case i_loop_chain st of
        None \<Rightarrow> ([], Inl AttributeError)
      | Some loop_chain \<Rightarrow>
         (case soft_fuse loop_chain of
            Inl e \<Rightarrow> ([], Inl e)
          | Inr handled \<Rightarrow>
             (case i_name st of
                None \<Rightarrow> ([], Inl AttributeError)
              | Some nm \<Rightarrow>
                 (let sched = FusionSchedule nm (i_schedule st) (map fst handled) (map snd handled)
                  in ([], Inr (st\<lparr>i_schedule := sched,
                        i_loop_chain := Some (apply_schedule env sched False loop_chain)\<rparr>))))))"

text \<open>\<^verbatim>\<open>loop_chain.index(x)\<close>\<close>

fun index_of :: "'a list \<Rightarrow> 'a \<Rightarrow> error + nat" where
  "index_of [] x = Inl ValueError"
| "index_of (y # ys) x =
     (if y = x then Inr 0
      else case index_of ys x of Inl e \<Rightarrow> Inl e | Inr n \<Rightarrow> Inr (Suc n))"

fun build_fused :: "env \<Rightarrow> loop list \<Rightarrow> fusible_pair list \<Rightarrow> error + (handle \<times> pmap) list" where
  "build_fused env loop_chain [] = Inr []"
| "build_fused env loop_chain (p # ps) =
     (case index_of loop_chain (fp_base p) of
        Inl e \<Rightarrow> Inl e
      | Inr ib \<Rightarrow>
         (case index_of loop_chain (fp_fuse p) of
            Inl e \<Rightarrow> Inl e
          | Inr ifu \<Rightarrow>
             (case build_hard_fusion_kernel env (fp_base p) (fp_fuse p) (fp_map p) (ib, ifu) of
                Inl e \<Rightarrow> Inl e
              | Inr fused_kernel \<Rightarrow>
                 (case build_fused env loop_chain ps of
                    Inl e \<Rightarrow> Inl e
                  | Inr fused \<Rightarrow> Inr ((fused_kernel, fp_map p) # fused)))))"

definition hard_fuse_pass :: "env \<Rightarrow> inspector \<Rightarrow> event list \<times> (error + inspector)" where
  "hard_fuse_pass env st =
     (case i_loop_chain st of
        None \<Rightarrow> ([], Inl AttributeError)
      | Some loop_chain \<Rightarrow>
         (case hard_fuse_pairs loop_chain of
            Inl e \<Rightarrow> ([], Inl e)
          | Inr fusible \<Rightarrow>
             (case build_fused env loop_chain fusible of
                Inl e \<Rightarrow> ([], Inl e)
              | Inr fused \<Rightarrow>
                 (case i_name st of
                    None \<Rightarrow> ([], Inl AttributeError)
                  | Some nm \<Rightarrow>
                     (let sched = HardFusionSchedule nm (i_schedule st) fused
                      in ([], Inr (st\<lparr>i_schedule := sched,
                            i_loop_chain := Some (apply_schedule env sched True loop_chain)\<rparr>)))))))"

text \<open>
  \<^verbatim>\<open>Inspector._tile\<close>: the guard on deep halos, the registration of sets, maps and
  loops, and the call of SLOPE, which yields the inspection and the executor.
\<close>

definition tile :: "env \<Rightarrow> inspector \<Rightarrow> event list \<times> (error + inspector)" where
  "tile env st =
     (case i_loop_chain st of
        None \<Rightarrow> ([], Inl AttributeError)
      | Some loop_chain \<Rightarrow>
         (case i_options st of
            None \<Rightarrow> ([], Inl AttributeError)
          | Some opts \<Rightarrow>
             (let extra_halo = (case opt_extra_halo opts of Some b \<Rightarrow> b | None \<Rightarrow> False)
              in if get_exec_mode env \<in> set [''OMP_MPI'', ''ONLY_MPI''] \<and>
                    \<not> list_all (\<lambda>l. deep_size (its_iterset (it_space l)) \<noteq> None) loop_chain
                 then ([Warning ''Tiling through SLOPE requires deep halos in all PyOP2 sets.''],
                       Inr st)
                 else
                   (case i_name st of
                      None \<Rightarrow> ([], Inl AttributeError)
                    | Some nm \<Rightarrow>
                       (case register_loops (get_exec_mode env) extra_halo loop_chain
                               ([], [], []) of
                          Inl e \<Rightarrow> ([], Inl e)
                        | Inr (sets, maps, loops) \<Rightarrow>
                           (case slope_inspector env nm sets maps loops opts of
                              Inl e \<Rightarrow> ([], Inl e)
                            | Inr (inspection, executor) \<Rightarrow>
                               ([], Inr (st\<lparr>i_schedule :=
                                    TilingSchedule nm (i_schedule st) (map kernel loop_chain)
                                      inspection executor opts\<rparr>))))))))"

text \<open>
  One conditional pass of \<^verbatim>\<open>inspect\<close>: run it when the mode asks for it and the
  passes before it have not raised.
\<close>

definition then_pass ::
  "event list \<times> (error + inspector) \<Rightarrow> bool \<Rightarrow> event
     \<Rightarrow> (inspector \<Rightarrow> event list \<times> (error + inspector)) \<Rightarrow> event list \<times> (error + inspector)" where
  "then_pass r cond ev pass =
     (case snd r of
        Inl e \<Rightarrow> r
      | Inr st \<Rightarrow>
         (if cond then (fst r @ [ev] @ fst (pass st), snd (pass st)) else r))"

definition tiling_modes :: "string list" where
  "tiling_modes = [''tile'', ''only_tile'', ''only_omp'']"

text \<open>The three conditional passes of \<^verbatim>\<open>inspect\<close>: the two fusion passes, then tiling.\<close>

definition fusion_passes :: "env \<Rightarrow> string \<Rightarrow> inspector \<Rightarrow> event list \<times> (error + inspector)" where
  "fusion_passes env mode st =
     then_pass
       (then_pass ([], Inr st) (mode \<in> set [''soft'', ''hard'', ''tile''])
          SoftFusePass (soft_fuse_pass env))
       (mode \<in> set [''hard'', ''tile'']) HardFusePass (hard_fuse_pass env)"

definition run_passes :: "env \<Rightarrow> string \<Rightarrow> inspector \<Rightarrow> event list \<times> (error + inspector)" where
  "run_passes env mode st =
     then_pass (fusion_passes env mode st) (mode \<in> set tiling_modes) TilePass (tile env)"

definition inspect :: "env \<Rightarrow> inspector \<Rightarrow> event list \<times> (error + schedule \<times> inspector)" where
  "inspect env st =
     (if initialized st then ([], Inr (i_schedule st, st))
      else
        (case heuristic_skip_inspection st of
           Inl e \<Rightarrow> ([], Inl e)
         | Inr (skip, st1) \<Rightarrow>
            (if skip then
               (case del_fields st1 of
                  Inl e \<Rightarrow> ([], Inl e)
                | Inr st2 \<Rightarrow> ([], Inr (i_schedule st2, st2)))
             else
               (case i_mode st1 of
                  None \<Rightarrow> ([], Inl AttributeError)
                | Some mode \<Rightarrow>
                   (if mode \<notin> set modes then ([], Inl RuntimeError)
                    else
                      (case snd (run_passes env mode st1) of
                         Inl e \<Rightarrow> (fst (run_passes env mode st1), Inl e)
                       | Inr st2 \<Rightarrow>
                          (case del_fields (st2\<lparr>initialized := True\<rparr>) of
                             Inl e \<Rightarrow> (fst (run_passes env mode st1), Inl e)
                           | Inr st3 \<Rightarrow>
                               (fst (run_passes env mode st1),
                                Inr (i_schedule st3, st3)))))))))"

text \<open>
  An inspection request: the Inspector for the fingerprint is fetched from the cache,
  \<^verbatim>\<open>__init__\<close> runs on it, and \<^verbatim>\<open>inspect\<close> is called.
\<close>

definition request ::
  "env \<Rightarrow> string \<Rightarrow> loop list \<Rightarrow> string \<Rightarrow> options \<Rightarrow> inspector
     \<Rightarrow> event list \<times> (error + schedule \<times> inspector)" where
  "request env nm loop_chain mode opts st = inspect env (init st nm loop_chain mode opts)"

section \<open>Execution plans (\<^verbatim>\<open>openmp.py\<close>)\<close>

















section \<open>Specification-side notions and sample inputs\<close>

text \<open>
  The grouping as the specification words it: the maximal contiguous runs of loops in
  which every loop can be grouped with its predecessor. It is compared below with what
  \<open>soft_fuse\<close> computes.
\<close>

definition groupable :: "loop \<Rightarrow> loop \<Rightarrow> bool" where
  "groupable a b =
     (\<not> heterogeneous (loops_analyzer a b) \<and> \<not> indirect_w (loops_analyzer a b))"

fun maximal_runs_from :: "loop list \<Rightarrow> loop list \<Rightarrow> loop list list" where
  "maximal_runs_from cur [] = [cur]"
| "maximal_runs_from cur (l # ls) =
     (if groupable (last cur) l then maximal_runs_from (cur @ [l]) ls
      else cur # maximal_runs_from [l] ls)"

fun run_ends :: "nat \<Rightarrow> 'a list list \<Rightarrow> nat list" where
  "run_ends s [] = []"
| "run_ends s (g # gs) = (s + length g) # run_ends (s + length g) gs"

text \<open>Sample sets, maps, kernels and loops used to instantiate the theorems.\<close>

definition set_S :: op2set where
  "set_S = Set ''S'' 4 4 4 None None None"

definition set_T :: op2set where
  "set_T = Set ''T'' 2 2 2 None None None"

definition map_M :: pmap where
  "map_M = Map ''M'' set_S set_T 2 [0, 1, 0, 1, 0, 1, 0, 1] []"

definition sp_S :: itspace where
  "sp_S = \<lparr>its_iterset = set_S, extents = []\<rparr>"

definition sp_T :: itspace where
  "sp_T = \<lparr>its_iterset = set_T, extents = []\<rparr>"

definition kern :: "string \<Rightarrow> string \<Rightarrow> string \<Rightarrow> kernel" where
  "kern nm p q =
     (let a = \<lparr>headers = [],
                fundecls = [\<lparr>fd_ret = ''void'', fd_name = nm,
                             fd_args = [Decl ''double*'' p, Decl ''double*'' q],
                             fd_body = [Node ''Assign'' [Symbol q, Symbol p]]\<rparr>]\<rparr>
      in \<lparr>kname = nm, code = None, original_ast = a, ast = a\<rparr>)"

definition loop_A :: loop where
  "loop_A = \<lparr>kernel = kern ''ka'' ''x'' ''y'', it_space = sp_S,
      args = [\<lparr>data = 0, access = READ, shape = Direct\<rparr>,
              \<lparr>data = 1, access = WRITE, shape = Direct\<rparr>]\<rparr>"

definition loop_B :: loop where
  "loop_B = \<lparr>kernel = kern ''kb'' ''y'' ''z'', it_space = sp_S,
      args = [\<lparr>data = 1, access = READ, shape = Direct\<rparr>,
              \<lparr>data = 2, access = INC, shape = Direct\<rparr>]\<rparr>"

definition loop_C :: loop where
  "loop_C = \<lparr>kernel = kern ''kc'' ''u'' ''z'', it_space = sp_T,
      args = [\<lparr>data = 3, access = READ, shape = Direct\<rparr>,
              \<lparr>data = 2, access = INC, shape = Direct\<rparr>]\<rparr>"

definition sample_chain :: "loop list" where
  "sample_chain = [loop_A, loop_B, loop_C]"

definition set_U :: op2set where
  "set_U = Set ''U'' 3 3 3 None None None"

definition sp_U :: itspace where
  "sp_U = \<lparr>its_iterset = set_U, extents = []\<rparr>"

definition map_N :: pmap where
  "map_N = Map ''N'' set_T set_T 1 [1, 0] []"

definition map_K :: pmap where
  "map_K = Map ''K'' set_U set_U 1 [2, 0, 1] []"

text \<open>
  \<open>loop_P\<close> runs over S and increments datum 5 through the map M from S to T;
  \<open>loop_Q\<close> runs over T and increments datum 5 through N; \<open>loop_R\<close> is
  \<open>loop_Q\<close> with a further direct argument; \<open>loop_N\<close> runs over T and increments
  another datum; \<open>loop_V\<close> runs over U and increments datum 5 through the map K from
  U to U, so that no map of \<open>loop_P\<close> and \<open>loop_V\<close> connects S and U.
\<close>

definition loop_P :: loop where
  "loop_P = \<lparr>kernel = kern ''kp'' ''c'' ''f'', it_space = sp_S,
      args = [\<lparr>data = 4, access = READ, shape = Direct\<rparr>,
              \<lparr>data = 5, access = INC, shape = Indirect map_M\<rparr>]\<rparr>"

definition loop_Q :: loop where
  "loop_Q = \<lparr>kernel = kern ''kq'' ''g'' ''f'', it_space = sp_T,
      args = [\<lparr>data = 6, access = READ, shape = Indirect map_N\<rparr>,
              \<lparr>data = 5, access = INC, shape = Indirect map_N\<rparr>]\<rparr>"

definition loop_R :: loop where
  "loop_R = \<lparr>kernel = kern ''kr'' ''g'' ''f'', it_space = sp_T,
      args = [\<lparr>data = 6, access = READ, shape = Direct\<rparr>,
              \<lparr>data = 5, access = INC, shape = Indirect map_N\<rparr>]\<rparr>"

definition loop_N :: loop where
  "loop_N = \<lparr>kernel = kern ''kn'' ''g'' ''h'', it_space = sp_T,
      args = [\<lparr>data = 6, access = READ, shape = Indirect map_N\<rparr>,
              \<lparr>data = 7, access = INC, shape = Indirect map_N\<rparr>]\<rparr>"

definition loop_V :: loop where
  "loop_V = \<lparr>kernel = kern ''kv'' ''g'' ''f'', it_space = sp_U,
      args = [\<lparr>data = 8, access = READ, shape = Direct\<rparr>,
              \<lparr>data = 5, access = INC, shape = Indirect map_K\<rparr>]\<rparr>"

definition pair_P_Q :: fusible_pair where
  "pair_P_Q = \<lparr>fp_base = loop_P, fp_fuse = loop_Q, fp_map = map_M,
                fp_inc = \<lparr>data = 5, access = INC, shape = Indirect map_M\<rparr>\<rparr>"

definition sample_opts :: options where
  "sample_opts = \<lparr>opt_tile_size = Some 4, opt_extra_halo = None,
                   opt_coloring = Some ''default'', opt_use_prefetch = Some 0,
                   opt_use_glb_maps = Some False, opt_log = None\<rparr>"

text \<open>
  A sample environment: sequential execution, a schedule application that leaves the
  chain as it is, and collaborators that return fixed handles. The second one reports
  the execution mode \<^verbatim>\<open>OMP_MPI\<close>.
\<close>

definition sample_env :: env where
  "sample_env = \<lparr>get_exec_mode = ''SEQUENTIAL'',
                  apply_schedule = (\<lambda>sched only_hard loop_chain. loop_chain),
                  build_hard_fusion_kernel = (\<lambda>b f m ix. Inr 0),
                  slope_inspector = (\<lambda>nm sets maps loops opts. Inr (1, 2))\<rparr>"

definition sample_mpi_env :: env where
  "sample_mpi_env = sample_env\<lparr>get_exec_mode := ''OMP_MPI''\<rparr>"

text \<open>A subset of S, and a loop that iterates over it.\<close>

definition sample_subset :: op2set where
  "sample_subset = Subset set_S [0, 2] ''S'' 2 2 2 None None None"

definition loop_W :: loop where
  "loop_W = \<lparr>kernel = kern ''kw'' ''x'' ''y'',
      it_space = \<lparr>its_iterset = sample_subset, extents = []\<rparr>,
      args = [\<lparr>data = 0, access = READ, shape = Direct\<rparr>,
              \<lparr>data = 1, access = WRITE, shape = Direct\<rparr>]\<rparr>"

text \<open>
  The Inspector of the sample chain under a mode, as a request that was deferred leaves
  it: \<open>n\<close> requests counted, the build-time fields deleted.
\<close>

definition sample_deferred :: "string \<Rightarrow> nat \<Rightarrow> inspector" where
  "sample_deferred mode n =
     (make_obj ''chain'' sample_chain mode sample_opts)
       \<lparr>ninsps := Some n, i_name := None, i_loop_chain := None, i_mode := None,
        i_options := None\<rparr>"

definition sample_built :: inspector where
  "sample_built =
     snd (projr (snd (request sample_env ''chain'' sample_chain ''tile'' sample_opts
                        (sample_deferred ''tile'' 2))))"

definition sample_fused :: inspector where
  "sample_fused =
     projr (snd (fusion_passes sample_mpi_env ''tile''
                   (make_obj ''chain'' sample_chain ''tile'' sample_opts)))"

text \<open>
  The renaming as the specification words it: every reference to a parameter of the
  fused-in kernel gets the suffix of that kernel appended; other names stay. It is
  compared below with the renaming loop of the source.
\<close>

definition suffix_params :: "nat \<Rightarrow> fundecl \<Rightarrow> string \<Rightarrow> string" where
  "suffix_params unique_id f n =
     (if n \<in> d_sym ` set (fd_args f) then n @ ''_'' @ string_of_nat unique_id else n)"

text \<open>The value of a decimal text, to tell the suffixes of different kernels apart.\<close>

definition digit_value :: "char \<Rightarrow> nat" where
  "digit_value c = length (takeWhile (\<lambda>d. d \<noteq> c) ''0123456789'')"

definition nat_of_string :: "string \<Rightarrow> nat" where
  "nat_of_string s = foldl (\<lambda>a c. 10 * a + digit_value c) 0 s"

text \<open>What the kernel numbered \<open>unique_id\<close> adds to the signature and to the body.\<close>

definition appended_params :: "nat \<Rightarrow> fundecl \<Rightarrow> decl list" where
  "appended_params unique_id f = map (rename_decl (suffix_params unique_id f)) (fd_args f)"

definition appended_body :: "nat \<Rightarrow> fundecl \<Rightarrow> node list" where
  "appended_body unique_id f =
     FlatBlock marker # map (rename_node (suffix_params unique_id f)) (fd_body f)"

text \<open>The function declarations of the kernels of \<open>loop_A\<close> and \<open>loop_B\<close>.\<close>

definition fd_A :: fundecl where
  "fd_A = \<lparr>fd_ret = ''void'', fd_name = ''ka'',
           fd_args = [Decl ''double*'' ''x'', Decl ''double*'' ''y''],
           fd_body = [Node ''Assign'' [Symbol ''y'', Symbol ''x'']]\<rparr>"

definition fd_B :: fundecl where
  "fd_B = \<lparr>fd_ret = ''void'', fd_name = ''kb'',
           fd_args = [Decl ''double*'' ''y'', Decl ''double*'' ''z''],
           fd_body = [Node ''Assign'' [Symbol ''z'', Symbol ''y'']]\<rparr>"





text \<open>
  The schedule that the two fusion passes build for the sample chain, and the
  Inspector that the third request under \<^verbatim>\<open>tile\<close> leaves when the execution mode is
  \<^verbatim>\<open>OMP_MPI\<close>.
\<close>

definition sample_fusion_schedule :: schedule where
  "sample_fusion_schedule =
     HardFusionSchedule ''chain''
       (FusionSchedule ''chain'' (PlainSchedule ''chain'' (map kernel sample_chain))
          (map fst (projr (soft_fuse sample_chain))) (map snd (projr (soft_fuse sample_chain))))
       []"

definition sample_mpi_built :: inspector where
  "sample_mpi_built =
     snd (projr (snd (request sample_mpi_env ''chain'' sample_chain ''tile'' sample_opts
                        (sample_deferred ''tile'' 2))))"

section \<open>Properties of the dependency analysis\<close>

lemma data_inter_ne:
  "(data ` set (filter P xs) \<inter> data ` set (filter Q ys) \<noteq> {}) =
   (\<exists>a\<in>set xs. \<exists>b\<in>set ys. P a \<and> Q b \<and> data a = data b)"
  by auto

lemma analyzer_heterogeneous:
  "heterogeneous (loops_analyzer a b) = (it_space a \<noteq> it_space b)"
  by (simp add: loops_analyzer_def Let_def)

lemma analyzer_homogeneous:
  "homogeneous (loops_analyzer a b) = (it_space a = it_space b)"
  by (simp add: loops_analyzer_def Let_def)

lemma analyzer_indirect_w:
  "indirect_w (loops_analyzer a b) =
     (if it_space a = it_space b
      then ind_inc_writes a \<inter> ind_reads b \<noteq> {} \<or> ind_reads a \<inter> ind_inc_writes b \<noteq> {} \<or>
           ind_inc_writes a \<inter> ind_inc_writes b \<noteq> {}
      else all_writes a \<inter> all_reads b \<noteq> {} \<or> all_reads a \<inter> all_writes b \<noteq> {} \<or>
           all_writes a \<inter> all_writes b \<noteq> {})"
  by (simp add: loops_analyzer_def Let_def)

lemma analyzer_pure_iai:
  "pure_iai (loops_analyzer a b) =
     (all_incs a \<inter> all_incs b \<noteq> {} \<and> all_writes a \<inter> all_reads b = {} \<and>
      all_reads a \<inter> all_writes b = {})"
  by (auto simp: loops_analyzer_def Let_def)

text \<open>
  Claim C1. For loops \<open>loop1\<close> before \<open>loop2\<close>, \<open>loops_analyzer\<close> reports
  \<open>pure_iai\<close> exactly when some datum is incremented (INC) by both loops and, over
  all arguments of both loops, no datum written by one loop (WRITE, RW, MIN or MAX) is
  read (READ or RW) by the other, in either direction.
\<close>

theorem pure_iai_iff:
  "pure_iai (loops_analyzer loop1 loop2) =
    ((\<exists>a\<in>set (args loop1). \<exists>b\<in>set (args loop2).
        access a = INC \<and> access b = INC \<and> data a = data b) \<and>
     \<not> (\<exists>a\<in>set (args loop1). \<exists>b\<in>set (args loop2).
        access a \<in> {WRITE, RW, MINacc, MAXacc} \<and> access b \<in> {READ, RW} \<and>
        data a = data b) \<and>
     \<not> (\<exists>a\<in>set (args loop2). \<exists>b\<in>set (args loop1).
        access a \<in> {WRITE, RW, MINacc, MAXacc} \<and> access b \<in> {READ, RW} \<and>
        data a = data b))"
proof -
  have i: "(all_incs loop1 \<inter> all_incs loop2 \<noteq> {}) =
      (\<exists>a\<in>set (args loop1). \<exists>b\<in>set (args loop2).
        access a = INC \<and> access b = INC \<and> data a = data b)"
    unfolding all_incs_def incs_def data_inter_ne by simp
  have w: "(all_writes l \<inter> all_reads l' \<noteq> {}) =
      (\<exists>a\<in>set (args l). \<exists>b\<in>set (args l').
        access a \<in> {WRITE, RW, MINacc, MAXacc} \<and> access b \<in> {READ, RW} \<and>
        data a = data b)" for l l'
    unfolding all_writes_def all_reads_def writes_def reads_def data_inter_ne by auto
  have r: "(all_reads loop1 \<inter> all_writes loop2 = {}) =
      (all_writes loop2 \<inter> all_reads loop1 = {})"
    by auto
  show ?thesis
    unfolding loops_analyzer_def Let_def
    apply (simp only: info.simps r)
    using i w[of loop1 loop2] w[of loop2 loop1] by blast
qed

text \<open>
  The loops \<open>loop_B\<close> and \<open>loop_C\<close> both increment datum 2 and share nothing else:
  the pair is a pure increment-after-increment. The loops \<open>loop_A\<close> and \<open>loop_B\<close>
  are not: \<open>loop_A\<close> writes datum 1, which \<open>loop_B\<close> reads.
\<close>

theorem pure_iai_iff_witness:
  "pure_iai (loops_analyzer loop_B loop_C) \<and> \<not> pure_iai (loops_analyzer loop_A loop_B)"
  using pure_iai_iff[of loop_B loop_C] pure_iai_iff[of loop_A loop_B]
  by (simp add: loop_A_def loop_B_def loop_C_def)

text \<open>
  Claim C10. When the analyzer reports two loops heterogeneous (their iteration spaces
  differ), the flags \<open>direct_raw\<close>, \<open>direct_war\<close>, \<open>direct_waw\<close> and \<open>direct_w\<close>
  are all false, whatever directly accessed data the loops share.
\<close>

theorem heterogeneous_no_direct_hazard:
  "heterogeneous (loops_analyzer loop1 loop2) \<Longrightarrow>
     \<not> direct_raw (loops_analyzer loop1 loop2) \<and>
     \<not> direct_war (loops_analyzer loop1 loop2) \<and>
     \<not> direct_waw (loops_analyzer loop1 loop2) \<and>
     \<not> direct_w (loops_analyzer loop1 loop2)"
  by (simp add: loops_analyzer_def Let_def)

lemma loop_B_C_heterogeneous: "heterogeneous (loops_analyzer loop_B loop_C)"
  by (simp add: analyzer_heterogeneous loop_B_def loop_C_def sp_S_def sp_T_def
      set_S_def set_T_def)

lemma loop_B_C_share_direct: "dir_inc_writes loop_B \<inter> dir_inc_writes loop_C = {2}"
  by (auto simp: dir_inc_writes_def incs_def writes_def is_direct_def loop_B_def loop_C_def)

text \<open>
  \<open>loop_B\<close> and \<open>loop_C\<close> run over different sets and both increment datum 2
  directly; no direct hazard is reported.
\<close>

theorem heterogeneous_no_direct_hazard_witness:
  "heterogeneous (loops_analyzer loop_B loop_C) \<and>
   dir_inc_writes loop_B \<inter> dir_inc_writes loop_C = {2} \<and>
   \<not> direct_raw (loops_analyzer loop_B loop_C) \<and>
   \<not> direct_war (loops_analyzer loop_B loop_C) \<and>
   \<not> direct_waw (loops_analyzer loop_B loop_C) \<and>
   \<not> direct_w (loops_analyzer loop_B loop_C)"
  using heterogeneous_no_direct_hazard[OF loop_B_C_heterogeneous]
    loop_B_C_heterogeneous loop_B_C_share_direct
  by simp

section \<open>Properties of soft fusion\<close>

lemma fuse_into_ok:
  "\<forall>a\<in>set fas. fundecls a \<noteq> [] \<Longrightarrow> \<exists>f. fuse_into b u fas = Inr f"
proof (induction fas arbitrary: b u)
  case Nil
  then show ?case by simp
next
  case (Cons a fas)
  then obtain f0 fs where "fundecls a = f0 # fs" by (cases "fundecls a") auto
  with Cons show ?case by (simp add: find_fundecl_def Let_def)
qed

lemma build_ok:
  assumes "g \<noteq> []" and "\<forall>l\<in>set g. fundecls (select_ast (kernel l)) \<noteq> []"
  shows "\<exists>fk. build_soft_fusion_kernel g k = Inr fk \<and>
     fk_kernels fk = map kernel g \<and> fk_index fk = k"
proof -
  from assms(1) obtain l ls where g: "g = l # ls" by (cases g) auto
  from assms(2) g obtain f0 fs where f: "fundecls (select_ast (kernel l)) = f0 # fs"
    by (cases "fundecls (select_ast (kernel l))") auto
  have "\<forall>a\<in>set (map select_ast (map kernel ls)). fundecls a \<noteq> []"
    using assms(2) g by auto
  from fuse_into_ok[OF this]
  obtain fd where "fuse_into f0 1 (map select_ast (map kernel ls)) = Inr fd"
    by blast
  then show ?thesis
    using g f by (simp add: build_soft_fusion_kernel_def find_fundecl_def Let_def)
qed

lemma scan_runs:
  assumes "F \<noteq> []" and "\<forall>l\<in>set (F @ R). fundecls (select_ast (kernel l)) \<noteq> []"
    and "i + 1 = s + length F" and "n = s + length F + length R"
  shows "\<exists>new. soft_fuse_scan n handled F i R = Inr (handled @ new) \<and>
     map (\<lambda>p. fk_kernels (fst p)) new = map (map kernel) (maximal_runs_from F R) \<and>
     map snd new = run_ends s (maximal_runs_from F R) \<and>
     map (\<lambda>p. fk_index (fst p)) new =
       [length handled ..< length handled + length (maximal_runs_from F R)]"
  using assms
proof (induction R arbitrary: F i s handled)
  case Nil
  from build_ok[of F "length handled"] Nil obtain fk where
    "build_soft_fusion_kernel F (length handled) = Inr fk"
    "fk_kernels fk = map kernel F" "fk_index fk = length handled"
    by auto
  with Nil show ?case by simp
next
  case (Cons l R)
  show ?case
  proof (cases "groupable (last F) l")
    case True
    have "\<exists>new. soft_fuse_scan n handled (F @ [l]) (i + 1) R = Inr (handled @ new) \<and>
       map (\<lambda>p. fk_kernels (fst p)) new = map (map kernel) (maximal_runs_from (F @ [l]) R) \<and>
       map snd new = run_ends s (maximal_runs_from (F @ [l]) R) \<and>
       map (\<lambda>p. fk_index (fst p)) new =
         [length handled ..< length handled + length (maximal_runs_from (F @ [l]) R)]"
      by (rule Cons.IH) (use Cons.prems in auto)
    then show ?thesis using True Cons.prems(1) by (simp add: groupable_def Let_def)
  next
    case False
    from build_ok[of F "length handled"] Cons.prems obtain fk where
      fk: "build_soft_fusion_kernel F (length handled) = Inr fk"
        "fk_kernels fk = map kernel F" "fk_index fk = length handled"
      by auto
    let ?h = "handled @ [(fk, i + 1)]"
    have "\<exists>new. soft_fuse_scan n ?h [l] (i + 1) R = Inr (?h @ new) \<and>
       map (\<lambda>p. fk_kernels (fst p)) new = map (map kernel) (maximal_runs_from [l] R) \<and>
       map snd new = run_ends (i + 1) (maximal_runs_from [l] R) \<and>
       map (\<lambda>p. fk_index (fst p)) new =
         [length ?h ..< length ?h + length (maximal_runs_from [l] R)]"
      by (rule Cons.IH) (use Cons.prems in auto)
    then obtain new where new:
      "soft_fuse_scan n ?h [l] (i + 1) R = Inr (?h @ new)"
      "map (\<lambda>p. fk_kernels (fst p)) new = map (map kernel) (maximal_runs_from [l] R)"
      "map snd new = run_ends (i + 1) (maximal_runs_from [l] R)"
      "map (\<lambda>p. fk_index (fst p)) new =
         [Suc (length handled) ..< Suc (length handled) + length (maximal_runs_from [l] R)]"
      by auto
    have "soft_fuse_scan n handled F i (l # R) = Inr (handled @ ((fk, i + 1) # new))"
      using False Cons.prems(1) fk new(1) by (simp add: groupable_def Let_def)
    moreover have "map (\<lambda>p. fk_kernels (fst p)) ((fk, i + 1) # new) =
        map (map kernel) (maximal_runs_from F (l # R))"
      using False fk new(2) by simp
    moreover have "map snd ((fk, i + 1) # new) = run_ends s (maximal_runs_from F (l # R))"
      using False new(3) Cons.prems(3) by simp
    moreover have "map (\<lambda>p. fk_index (fst p)) ((fk, i + 1) # new) =
        [length handled ..< length handled + length (maximal_runs_from F (l # R))]"
    proof -
      have "[length handled ..< length handled + Suc m] =
          length handled # [Suc (length handled) ..< Suc (length handled) + m]" for m
        by (simp add: upt_conv_Cons del: upt_Suc)
      then show ?thesis using False fk(3) new(4) by (simp del: upt_Suc)
    qed
    ultimately show ?thesis by blast
  qed
qed

lemma runs_concat: "concat (maximal_runs_from F R) = F @ R"
  by (induction R arbitrary: F) auto

lemma runs_nonempty: "F \<noteq> [] \<Longrightarrow> \<forall>g\<in>set (maximal_runs_from F R). g \<noteq> []"
  by (induction R arbitrary: F) auto

lemma runs_hd: "F \<noteq> [] \<Longrightarrow> hd (hd (maximal_runs_from F R)) = hd F"
  by (induction R arbitrary: F) auto

lemma runs_ne: "maximal_runs_from F R \<noteq> []"
  by (induction R arbitrary: F) auto

lemma runs_inner:
  "successively groupable F \<Longrightarrow> \<forall>g\<in>set (maximal_runs_from F R). successively groupable g"
proof (induction R arbitrary: F)
  case Nil
  then show ?case by simp
next
  case (Cons l R)
  show ?case
  proof (cases "groupable (last F) l")
    case True
    have "successively groupable (F @ [l])"
      using Cons.prems True by (cases "F = []") (auto simp: successively_append_iff)
    from Cons.IH[OF this] True show ?thesis by simp
  next
    case False
    have "successively groupable [l]" by simp
    from Cons.IH[OF this] False Cons.prems show ?thesis by simp
  qed
qed

lemma runs_boundary:
  "F \<noteq> [] \<Longrightarrow>
   successively (\<lambda>g g'. \<not> groupable (last g) (hd g')) (maximal_runs_from F R)"
proof (induction R arbitrary: F)
  case Nil
  then show ?case by simp
next
  case (Cons l R)
  show ?case
  proof (cases "groupable (last F) l")
    case True
    with Cons show ?thesis by simp
  next
    case False
    have "successively (\<lambda>g g'. \<not> groupable (last g) (hd g')) (maximal_runs_from [l] R)"
      by (rule Cons.IH) simp
    moreover have "hd (hd (maximal_runs_from [l] R)) = l"
      using runs_hd[of "[l]" R] by simp
    ultimately show ?thesis using False runs_ne[of "[l]" R]
      by (cases "maximal_runs_from [l] R") auto
  qed
qed

lemma run_ends_take:
  "run_ends s gs = map (\<lambda>k. s + length (concat (take (Suc k) gs))) [0..<length gs]"
proof (induction gs arbitrary: s)
  case Nil
  then show ?case by simp
next
  case (Cons g gs)
  have "map (\<lambda>k. s + length (concat (take (Suc k) (g # gs)))) [0..<length (g # gs)]
      = (s + length g) #
        map (\<lambda>k. s + length (concat (take (Suc k) (g # gs)))) (map Suc [0..<length gs])"
    by (simp add: upt_conv_Cons map_Suc_upt del: upt_Suc)
  also have "\<dots> = (s + length g) #
        map (\<lambda>k. (s + length g) + length (concat (take (Suc k) gs))) [0..<length gs]"
    by (simp add: comp_def)
  finally show ?case using Cons.IH[of "s + length g"] by simp
qed

text \<open>
  Claim C3. Soft fusion scans the chain from left to right and puts the next loop into
  the current group exactly when the analysis of the last loop of the group and the
  next loop reports neither \<open>heterogeneous\<close> nor \<open>indirect_w\<close>; otherwise the group
  is closed, a fused kernel is emitted for it and a new group starts at that loop; the
  last group is flushed at the end. For a chain that is not empty and whose kernels
  each hold a function declaration, \<open>soft_fuse\<close> returns, and what it returns
  describes the maximal contiguous runs: there are groups that concatenate to the
  chain, none empty, every two neighbours inside a group satisfying the condition, the
  last loop of a group and the first of the next one violating it; the k-th fused
  kernel is built from the kernels of the k-th group, carries the number k, and is
  recorded with the position in the chain at which the group ends.
\<close>

theorem soft_fuse_maximal_runs:
  assumes "loop_chain \<noteq> []"
    and "\<forall>l\<in>set loop_chain. fundecls (select_ast (kernel l)) \<noteq> []"
  shows "\<exists>handled groups. soft_fuse loop_chain = Inr handled \<and>
     concat groups = loop_chain \<and>
     (\<forall>g\<in>set groups. g \<noteq> [] \<and>
        successively (\<lambda>a b. \<not> heterogeneous (loops_analyzer a b) \<and>
                             \<not> indirect_w (loops_analyzer a b)) g) \<and>
     successively (\<lambda>g g'. heterogeneous (loops_analyzer (last g) (hd g')) \<or>
                           indirect_w (loops_analyzer (last g) (hd g'))) groups \<and>
     map (\<lambda>p. fk_kernels (fst p)) handled = map (map kernel) groups \<and>
     map snd handled = map (\<lambda>k. length (concat (take (Suc k) groups))) [0..<length groups] \<and>
     map (\<lambda>p. fk_index (fst p)) handled = [0..<length groups]"
proof -
  from assms(1) obtain l0 rest where c: "loop_chain = l0 # rest" by (cases loop_chain) auto
  let ?gs = "maximal_runs_from [l0] rest"
  have g: "groupable = (\<lambda>a b. \<not> heterogeneous (loops_analyzer a b) \<and>
                             \<not> indirect_w (loops_analyzer a b))"
    by (simp add: groupable_def fun_eq_iff)
  have ng: "(\<lambda>g g'. \<not> groupable (last g) (hd g')) =
      (\<lambda>g g'. heterogeneous (loops_analyzer (last g) (hd g')) \<or>
                           indirect_w (loops_analyzer (last g) (hd g')))"
    by (simp add: groupable_def fun_eq_iff)
  have "\<exists>new. soft_fuse_scan (length loop_chain) [] [l0] 0 rest = Inr ([] @ new) \<and>
     map (\<lambda>p. fk_kernels (fst p)) new = map (map kernel) ?gs \<and>
     map snd new = run_ends 0 ?gs \<and>
     map (\<lambda>p. fk_index (fst p)) new = [length [] ..< length [] + length ?gs]"
    using scan_runs[where F="[l0]" and R=rest and i=0 and s=0 and n="length loop_chain"
        and handled="[]"] assms(2) c by simp
  then obtain handled where h: "soft_fuse loop_chain = Inr handled"
     "map (\<lambda>p. fk_kernels (fst p)) handled = map (map kernel) ?gs"
     "map snd handled = run_ends 0 ?gs"
     "map (\<lambda>p. fk_index (fst p)) handled = [0 ..< length ?gs]"
    using c by (auto simp: soft_fuse_def)
  have 1: "concat ?gs = loop_chain" using runs_concat[of "[l0]" rest] c by simp
  have 2: "\<forall>g\<in>set ?gs. g \<noteq> [] \<and>
        successively (\<lambda>a b. \<not> heterogeneous (loops_analyzer a b) \<and>
                             \<not> indirect_w (loops_analyzer a b)) g"
    using runs_nonempty[of "[l0]" rest] runs_inner[of "[l0]" rest] unfolding g by simp
  have 3: "successively (\<lambda>g g'. heterogeneous (loops_analyzer (last g) (hd g')) \<or>
                           indirect_w (loops_analyzer (last g) (hd g'))) ?gs"
    using runs_boundary[of "[l0]" rest] unfolding ng by simp
  have 4: "map snd handled = map (\<lambda>k. length (concat (take (Suc k) ?gs))) [0..<length ?gs]"
    using h(3) run_ends_take[of 0 ?gs] by simp
  from h(1) 1 2 3 h(2) 4 h(4) show ?thesis by blast
qed

lemma sample_chain_fundecls:
  "\<forall>l\<in>set sample_chain. fundecls (select_ast (kernel l)) \<noteq> []"
  by (simp add: sample_chain_def loop_A_def loop_B_def loop_C_def kern_def select_ast_def Let_def)

lemma sample_chain_ends: "map snd (projr (soft_fuse sample_chain)) = [2, 3]"
  by code_simp

text \<open>
  On the chain \<open>loop_A\<close>, \<open>loop_B\<close> (both over the set S, direct arguments only) and
  \<open>loop_C\<close> (over the set T) the groups end at positions 2 and 3.
\<close>

theorem soft_fuse_maximal_runs_witness:
  "sample_chain \<noteq> [] \<and> map snd (projr (soft_fuse sample_chain)) = [2, 3] \<and>
   (\<exists>handled groups. soft_fuse sample_chain = Inr handled \<and>
     concat groups = sample_chain \<and>
     (\<forall>g\<in>set groups. g \<noteq> [] \<and>
        successively (\<lambda>a b. \<not> heterogeneous (loops_analyzer a b) \<and>
                             \<not> indirect_w (loops_analyzer a b)) g) \<and>
     successively (\<lambda>g g'. heterogeneous (loops_analyzer (last g) (hd g')) \<or>
                           indirect_w (loops_analyzer (last g) (hd g'))) groups \<and>
     map (\<lambda>p. fk_kernels (fst p)) handled = map (map kernel) groups \<and>
     map snd handled = map (\<lambda>k. length (concat (take (Suc k) groups))) [0..<length groups] \<and>
     map (\<lambda>p. fk_index (fst p)) handled = [0..<length groups])"
proof -
  have ne: "sample_chain \<noteq> []" by (simp add: sample_chain_def)
  from soft_fuse_maximal_runs[OF ne sample_chain_fundecls] ne sample_chain_ends
  show ?thesis by blast
qed

section \<open>Properties of the hard-fusion search\<close>

lemma select_pair_fuse:
  "select_pair b f m c = Inr (Accept p) \<Longrightarrow> fp_fuse p = f \<and> \<not> list_ex is_direct (args f)"
  by (auto simp: select_pair_def split: if_splits list.splits)

lemma examine_no_direct:
  assumes "examine b l = Inr (Accept p)"
  shows "\<not> list_ex is_direct (args (fp_fuse p))"
  using assms select_pair_fuse
  by (fastforce simp: examine_def Let_def split: if_splits list.splits)

lemma scan_no_direct:
  "scan_candidates b k ls i = Inr (i', found) \<Longrightarrow>
     \<forall>p\<in>set found. \<not> list_ex is_direct (args (fp_fuse p))"
proof (induction ls arbitrary: k i)
  case Nil
  then show ?case by simp
next
  case (Cons l ls)
  then show ?case
    by (auto split: sum.splits verdict.splits dest: examine_no_direct)
qed

lemma search_no_direct:
  "hard_fuse_search c b i acc = Inr res \<Longrightarrow>
   \<forall>p\<in>set acc. \<not> list_ex is_direct (args (fp_fuse p)) \<Longrightarrow>
   \<forall>p\<in>set res. \<not> list_ex is_direct (args (fp_fuse p))"
proof (induction c b i acc rule: hard_fuse_search.induct)
  case (1 c b i acc)
  show ?case
  proof (cases "b < length c")
    case False
    with "1.prems" show ?thesis by (simp add: hard_fuse_search.simps)
  next
    case True
    from "1.prems"(1) True obtain i' found k where
      s: "scan_candidates (c ! b) 0 (drop (b + 1) c) i = Inr (i', found)" and
      k: "i' = Some k" and
      r: "hard_fuse_search c (b + Suc k) i' (acc @ found) = Inr res"
      by (subst (asm) hard_fuse_search.simps) (auto split: sum.splits option.splits)
    have "\<forall>p\<in>set (acc @ found). \<not> list_ex is_direct (args (fp_fuse p))"
      using scan_no_direct[OF s] "1.prems"(2) by auto
    from "1.IH"[OF True s refl k r this] show ?thesis .
  qed
qed

text \<open>
  Claim C5. Every pair that hard fusion accepts, with base and fuse loop as they stand
  after the exchange that the direction of the connecting map may cause, has a fuse
  loop without any direct (map-free) argument.
\<close>

theorem hard_fuse_no_direct_fuse_arg:
  "hard_fuse_pairs loop_chain = Inr fusible \<Longrightarrow>
     \<forall>p\<in>set fusible. \<forall>a\<in>set (args (fp_fuse p)). \<not> is_direct a"
  using search_no_direct[of loop_chain 0 None "[]" fusible]
  by (simp add: hard_fuse_pairs_def list_ex_iff)

lemma pairs_P_Q: "hard_fuse_pairs [loop_P, loop_Q] = Inr [pair_P_Q]"
  by code_simp

lemma pairs_Q_P: "hard_fuse_pairs [loop_Q, loop_P] = Inr [pair_P_Q]"
  by code_simp

lemma pairs_P_R: "hard_fuse_pairs [loop_P, loop_R] = Inr []"
  by code_simp

text \<open>
  For the chain \<open>loop_Q\<close>, \<open>loop_P\<close> the map M runs from the set of the second
  loop to the set of the first, so the roles are exchanged: \<open>loop_P\<close>, which has a
  direct argument, becomes the base and \<open>loop_Q\<close>, which has none, the fuse loop.
  With \<open>loop_R\<close>, which has a direct argument, as the only candidate for the fuse
  loop, nothing is accepted.
\<close>

theorem hard_fuse_no_direct_fuse_arg_witness:
  "hard_fuse_pairs [loop_Q, loop_P] = Inr [pair_P_Q] \<and>
   list_all (\<lambda>a. \<not> is_direct a) (args (fp_fuse pair_P_Q)) \<and>
   list_ex is_direct (args (fp_base pair_P_Q)) \<and>
   hard_fuse_pairs [loop_P, loop_R] = Inr []"
proof -
  have "list_ex is_direct (args (fp_base pair_P_Q))" by code_simp
  with hard_fuse_no_direct_fuse_arg[OF pairs_Q_P] pairs_Q_P pairs_P_R
  show ?thesis by (simp add: list_all_iff)
qed

lemma examine_no_common_inc:
  assumes "it_space base_loop \<noteq> it_space loop" and "all_incs base_loop \<inter> all_incs loop = {}"
  shows "examine base_loop loop = Inr Break"
  using assms by (simp add: examine_def analyzer_homogeneous analyzer_pure_iai)

lemma common_incs_nonempty:
  assumes "all_incs base_loop \<inter> all_incs loop \<noteq> {}"
  shows "common_incs base_loop loop \<noteq> []"
proof -
  from assms obtain a where "a \<in> incs base_loop" by (auto simp: all_incs_def)
  then have "a \<in> set (inc_args base_loop)" by (simp add: incs_def inc_args_def)
  then have "a \<in> set (common_incs base_loop loop)"
    using \<open>a \<in> incs base_loop\<close> by (auto simp: common_incs_def Let_def)
  then show ?thesis by auto
qed

lemma pairs_P_N_Q: "hard_fuse_pairs [loop_P, loop_N, loop_Q] = Inr []"
  by code_simp

lemma scan_P_N_Q: "scan_candidates loop_P 0 [loop_N, loop_Q] None = Inr (Some 0, [])"
  by code_simp

lemma scan_P_Q: "scan_candidates loop_P 1 [loop_Q] (Some 0) = Inr (Some 1, [pair_P_Q])"
  by code_simp

lemma P_N_no_common_inc:
  "it_space loop_P \<noteq> it_space loop_N \<and> all_incs loop_P \<inter> all_incs loop_N = {}"
  by code_simp

lemma P_V_no_map:
  "it_space loop_P \<noteq> it_space loop_V \<and> pure_iai (loops_analyzer loop_P loop_V) \<and>
   fusion_map_1 loop_P loop_V = [] \<and> fusion_map_2 loop_P loop_V = []"
  by code_simp

text \<open>
  Claim C6, as stated, fails for a pair without a common incremented datum: the forward
  scan does not go on to the later candidates. In the chain \<open>loop_P\<close>, \<open>loop_N\<close>,
  \<open>loop_Q\<close> the loops \<open>loop_P\<close> and \<open>loop_N\<close> run over different sets and increment
  no common datum. The scan for the base \<open>loop_P\<close> stops at \<open>loop_N\<close>; the candidate
  \<open>loop_Q\<close>, which a scan that went on would accept, is never examined, and no pair
  is found in the chain.
\<close>

theorem hard_fuse_scan_stops_counterexample:
  "it_space loop_P \<noteq> it_space loop_N \<and> all_incs loop_P \<inter> all_incs loop_N = {} \<and>
   scan_candidates loop_P 0 [loop_N, loop_Q] None = Inr (Some 0, []) \<and>
   scan_candidates loop_P 1 [loop_Q] (Some 0) = Inr (Some 1, [pair_P_Q]) \<and>
   scan_candidates loop_P 0 [loop_N, loop_Q] None \<noteq>
     scan_candidates loop_P 1 [loop_Q] (Some 0) \<and>
   hard_fuse_pairs [loop_P, loop_N, loop_Q] = Inr []"
  using P_N_no_common_inc scan_P_N_Q scan_P_Q pairs_P_N_Q by simp

lemma incs_in_common:
  assumes "a \<in> incs l" and "l = base_loop \<or> l = loop"
  shows "a \<in> set (common_incs base_loop loop) \<and> a \<in> set (args l)"
proof -
  from assms(1) have "a \<in> set (inc_args l)" "a \<in> set (args l)"
    by (simp_all add: incs_def inc_args_def)
  with assms show ?thesis by (auto simp: common_incs_def Let_def)
qed

lemma select_pair_no_error:
  assumes "\<exists>a\<in>set cincs. a \<in> set (args base_loop)"
  shows "select_pair base_loop fuse_loop m cincs \<noteq> Inl e"
proof -
  from assms have "filter (\<lambda>a. a \<in> set (args base_loop)) cincs \<noteq> []"
    by (auto simp: filter_empty_conv)
  then show ?thesis by (auto simp: select_pair_def split: list.splits)
qed

lemma examine_no_error: "examine base_loop loop \<noteq> Inl e"
proof (cases "pure_iai (loops_analyzer base_loop loop)")
  case False
  then show ?thesis by (simp add: examine_def Let_def)
next
  case True
  then have "all_incs base_loop \<inter> all_incs loop \<noteq> {}" by (simp add: analyzer_pure_iai)
  then obtain a b where "a \<in> incs base_loop" "b \<in> incs loop"
    by (auto simp: all_incs_def)
  then have 1: "\<exists>a\<in>set (common_incs base_loop loop). a \<in> set (args base_loop)"
    and 2: "\<exists>a\<in>set (common_incs base_loop loop). a \<in> set (args loop)"
    using incs_in_common[of a base_loop base_loop loop] incs_in_common[of b loop base_loop loop]
    by auto
  show ?thesis
    using select_pair_no_error[OF 1] select_pair_no_error[OF 2]
    by (simp add: examine_def Let_def split: list.splits)
qed

lemma scan_no_error:
  "\<exists>i' found. scan_candidates base_loop k ls i = Inr (i', found) \<and>
     (if ls = [] then i' = i else i' \<noteq> None)"
proof (induction ls arbitrary: k i)
  case Nil
  then show ?case by simp
next
  case (Cons l ls)
  show ?case
  proof (cases "examine base_loop l")
    case (Inl e)
    with examine_no_error show ?thesis by blast
  next
    case (Inr v)
    show ?thesis
    proof (cases v)
      case Continue
      from Cons.IH[of "Suc k" "Some k"] obtain i' found where
        "scan_candidates base_loop (Suc k) ls (Some k) = Inr (i', found)"
        "if ls = [] then i' = Some k else i' \<noteq> None" by blast
      with Inr Continue show ?thesis by (cases "ls = []") auto
    qed (use Inr in auto)
  qed
qed

lemma search_no_error:
  "i \<noteq> None \<or> base_loop_index + 1 < length loop_chain \<or> length loop_chain \<le> base_loop_index
   \<Longrightarrow> \<exists>res. hard_fuse_search loop_chain base_loop_index i fusible = Inr res"
proof (induction loop_chain base_loop_index i fusible rule: hard_fuse_search.induct)
  case (1 c b i acc)
  show ?case
  proof (cases "b < length c")
    case False
    then show ?thesis by (simp add: hard_fuse_search.simps)
  next
    case True
    from scan_no_error[of "c ! b" 0 "drop (b + 1) c" i] obtain i' found where
      s: "scan_candidates (c ! b) 0 (drop (b + 1) c) i = Inr (i', found)" and
      e: "if drop (b + 1) c = [] then i' = i else i' \<noteq> None" by blast
    have "i' \<noteq> None" using e "1.prems" True by (cases "drop (b + 1) c = []") auto
    then obtain k where k: "i' = Some k" by auto
    have "\<exists>res. hard_fuse_search c (b + Suc k) i' (acc @ found) = Inr res"
      by (rule "1.IH"[OF True s refl k]) (simp add: k)
    then show ?thesis using True s k by (subst hard_fuse_search.simps) simp
  qed
qed

lemma scan_prefix:
  "\<forall>c\<in>set pre. examine base_loop c = Inr Continue \<Longrightarrow>
   scan_candidates base_loop k (pre @ loop # rest) i =
     scan_candidates base_loop (k + length pre) (loop # rest) None"
proof (induction pre arbitrary: k i)
  case Nil
  then show ?case by simp
next
  case (Cons c pre)
  have "scan_candidates base_loop k ((c # pre) @ loop # rest) i =
      scan_candidates base_loop (Suc k) (pre @ loop # rest) (Some k)"
    using Cons.prems by simp
  also have "\<dots> = scan_candidates base_loop (Suc k + length pre) (loop # rest) None"
    by (rule Cons.IH) (use Cons.prems in simp)
  also have "Suc k + length pre = k + length (c # pre)" by simp
  finally show ?case .
qed

lemma nth_of_drop: "drop n xs = pre @ x # rest \<Longrightarrow> xs ! (n + length pre) = x"
proof -
  assume a: "drop n xs = pre @ x # rest"
  then have "length (drop n xs) = length pre + Suc (length rest)" by simp
  then have "n + length pre < length xs" by simp
  then have "xs ! (n + length pre) = drop n xs ! length pre" by simp
  with a show ?thesis by simp
qed

text \<open>
  Claim C6, amended. A candidate loop that the forward scan from a base loop reaches
  (the candidates before it were skipped) and that runs over another iteration space
  raises no error, whichever way it is rejected: the search over the whole chain
  returns its list of pairs. If it shares no incremented datum with the base loop, the
  forward scan for this base loop ends with no pair recorded, and the search resumes
  with this candidate as the next base loop. If it passes the \<open>pure_iai\<close> test and
  has no connecting map in either direction, it is skipped and the forward scan goes on
  with the next candidate.
\<close>

theorem hard_fuse_rejection:
  assumes "base_loop_index < length loop_chain"
    and "loop_chain ! base_loop_index = base_loop"
    and "drop (base_loop_index + 1) loop_chain = pre @ loop # rest"
    and "\<forall>c\<in>set pre. examine base_loop c = Inr Continue"
    and "it_space base_loop \<noteq> it_space loop"
  shows "(\<exists>found. hard_fuse_pairs loop_chain = Inr found) \<and>
    (all_incs base_loop \<inter> all_incs loop = {} \<longrightarrow>
       examine base_loop loop = Inr Break \<and>
       scan_candidates base_loop 0 (pre @ loop # rest) i = Inr (Some (length pre), []) \<and>
       loop_chain ! (base_loop_index + Suc (length pre)) = loop \<and>
       hard_fuse_search loop_chain base_loop_index i fusible =
         hard_fuse_search loop_chain (base_loop_index + Suc (length pre))
           (Some (length pre)) fusible) \<and>
    (pure_iai (loops_analyzer base_loop loop) \<and>
     fusion_map_1 base_loop loop = [] \<and> fusion_map_2 base_loop loop = [] \<longrightarrow>
       examine base_loop loop = Inr Continue \<and>
       scan_candidates base_loop 0 (pre @ loop # rest) i =
         scan_candidates base_loop (Suc (length pre)) rest (Some (length pre)))"
proof (intro conjI impI)
  have "length (drop (base_loop_index + 1) loop_chain) = length pre + Suc (length rest)"
    using assms(3) by simp
  then have "0 + 1 < length loop_chain" by simp
  then show "\<exists>found. hard_fuse_pairs loop_chain = Inr found"
    unfolding hard_fuse_pairs_def by (intro search_no_error) simp
next
  assume a: "all_incs base_loop \<inter> all_incs loop = {}"
  show b: "examine base_loop loop = Inr Break"
    using assms(5) a by (rule examine_no_common_inc)
  show s: "scan_candidates base_loop 0 (pre @ loop # rest) i = Inr (Some (length pre), [])"
    unfolding scan_prefix[OF assms(4)] by (simp add: b)
  show "loop_chain ! (base_loop_index + Suc (length pre)) = loop"
    using nth_of_drop[OF assms(3)] by simp
  show "hard_fuse_search loop_chain base_loop_index i fusible =
         hard_fuse_search loop_chain (base_loop_index + Suc (length pre))
           (Some (length pre)) fusible"
    using assms(1,2,3) s by (subst hard_fuse_search.simps) simp
next
  assume a: "pure_iai (loops_analyzer base_loop loop) \<and>
     fusion_map_1 base_loop loop = [] \<and> fusion_map_2 base_loop loop = []"
  then have "common_incs base_loop loop \<noteq> []"
    using common_incs_nonempty by (simp add: analyzer_pure_iai)
  with a assms(5) show c: "examine base_loop loop = Inr Continue"
    by (simp add: examine_def analyzer_homogeneous)
  show "scan_candidates base_loop 0 (pre @ loop # rest) i =
         scan_candidates base_loop (Suc (length pre)) rest (Some (length pre))"
    unfolding scan_prefix[OF assms(4)] by (simp add: c)
qed

lemma examine_P_V: "examine loop_P loop_V = Inr Continue"
  by code_simp

lemma pairs_P_V_N_Q: "hard_fuse_pairs [loop_P, loop_V, loop_N, loop_Q] = Inr []"
  by code_simp

lemma pairs_P_V_Q: "hard_fuse_pairs [loop_P, loop_V, loop_Q] = Inr [pair_P_Q]"
  by code_simp

text \<open>
  In the chain \<open>loop_P\<close>, \<open>loop_V\<close>, \<open>loop_N\<close>, \<open>loop_Q\<close> the scan from
  \<open>loop_P\<close> skips \<open>loop_V\<close> (no connecting map) and stops at \<open>loop_N\<close> (no common
  incremented datum); the search resumes with \<open>loop_N\<close> as base and finds no pair.
  In the chain \<open>loop_P\<close>, \<open>loop_V\<close>, \<open>loop_Q\<close> the scan skips \<open>loop_V\<close> and
  accepts \<open>loop_Q\<close>.
\<close>

theorem hard_fuse_rejection_witness:
  "examine loop_P loop_N = Inr Break \<and>
   scan_candidates loop_P 0 [loop_V, loop_N, loop_Q] None = Inr (Some 1, []) \<and>
   hard_fuse_search [loop_P, loop_V, loop_N, loop_Q] 0 None [] =
     hard_fuse_search [loop_P, loop_V, loop_N, loop_Q] 2 (Some 1) [] \<and>
   hard_fuse_pairs [loop_P, loop_V, loop_N, loop_Q] = Inr [] \<and>
   examine loop_P loop_V = Inr Continue \<and>
   scan_candidates loop_P 0 [loop_V, loop_Q] None = Inr (Some 1, [pair_P_Q]) \<and>
   hard_fuse_pairs [loop_P, loop_V, loop_Q] = Inr [pair_P_Q]"
proof -
  have pv: "\<forall>c\<in>set [loop_V]. examine loop_P c = Inr Continue"
    using examine_P_V by simp
  have nv: "it_space loop_P \<noteq> it_space loop_V" using P_V_no_map by simp
  have 1: "examine loop_P loop_N = Inr Break \<and>
     scan_candidates loop_P 0 ([loop_V] @ loop_N # [loop_Q]) None =
       Inr (Some (length [loop_V]), []) \<and>
     hard_fuse_search [loop_P, loop_V, loop_N, loop_Q] 0 None [] =
       hard_fuse_search [loop_P, loop_V, loop_N, loop_Q] (0 + Suc (length [loop_V]))
         (Some (length [loop_V])) []"
    using hard_fuse_rejection[where loop_chain="[loop_P, loop_V, loop_N, loop_Q]"
        and base_loop_index=0 and base_loop=loop_P and pre="[loop_V]" and loop=loop_N
        and rest="[loop_Q]" and i=None and fusible="[]"]
      pv P_N_no_common_inc by simp
  have 2: "examine loop_P loop_V = Inr Continue \<and>
     scan_candidates loop_P 0 ([] @ loop_V # [loop_Q]) None =
       scan_candidates loop_P (Suc (length ([]::loop list))) [loop_Q]
         (Some (length ([]::loop list)))"
    using hard_fuse_rejection[where loop_chain="[loop_P, loop_V, loop_Q]"
        and base_loop_index=0 and base_loop=loop_P and pre="[]" and loop=loop_V
        and rest="[loop_Q]" and i=None and fusible="[]"]
      P_V_no_map by simp
  from 1 2 scan_P_Q pairs_P_V_N_Q pairs_P_V_Q show ?thesis by (simp add: numeral_2_eq_2)
qed

section \<open>Properties of the Inspector\<close>

lemma then_pass_ran:
  "snd (then_pass r True ev p) = Inr st' \<Longrightarrow> ev \<in> set (fst (then_pass r True ev p))"
  by (auto simp: then_pass_def split: sum.splits)

lemma run_passes_tiled:
  "mode \<in> set tiling_modes \<Longrightarrow> snd (run_passes env mode st) = Inr st' \<Longrightarrow>
     TilePass \<in> set (fst (run_passes env mode st))"
  using then_pass_ran by (simp add: run_passes_def)

lemma run_passes_started:
  "mode = ''tile'' \<or> mode = ''only_tile'' \<Longrightarrow> fst (run_passes env mode st) \<noteq> []"
  by (auto simp: run_passes_def fusion_passes_def then_pass_def tiling_modes_def split: sum.splits)

text \<open>
  Claim C7, as stated, fails for the mode \<^verbatim>\<open>only_omp\<close>: it is one of the modes for
  which \<open>inspect\<close> runs the tiling pass, and the heuristic does not defer it. The first
  request under \<^verbatim>\<open>only_omp\<close> runs the tiling pass, and the Inspector is initialized
  with a tiled schedule.
\<close>

theorem only_omp_not_deferred_counterexample:
  "''only_omp'' \<in> set tiling_modes \<and>
   request sample_env ''chain'' sample_chain ''only_omp'' sample_opts
     (make_obj ''chain'' sample_chain ''only_omp'' sample_opts) =
   ([TilePass],
    Inr (TilingSchedule ''chain'' (PlainSchedule ''chain'' (map kernel sample_chain))
           (map kernel sample_chain) 1 2 sample_opts,
         \<lparr>initialized = True, ninsps = Some 1, i_name = None, i_loop_chain = None,
          i_mode = None, i_options = None,
          i_schedule = TilingSchedule ''chain'' (PlainSchedule ''chain'' (map kernel sample_chain))
             (map kernel sample_chain) 1 2 sample_opts\<rparr>))"
  by code_simp

lemma run_passes_split:
  assumes "mode \<in> set tiling_modes" and "snd (run_passes env mode st) = Inr s2"
  shows "\<exists>stf. snd (fusion_passes env mode st) = Inr stf \<and> snd (tile env stf) = Inr s2 \<and>
     set (fst (tile env stf)) \<subseteq> set (fst (run_passes env mode st))"
  using assms by (auto simp: run_passes_def then_pass_def split: sum.splits)

lemma tile_result:
  assumes "snd (tile env st) = Inr st'"
  shows "(\<exists>nm' kernels inspection executor opts'.
            i_schedule st' = TilingSchedule nm' (i_schedule st) kernels inspection executor opts') \<or>
         (i_schedule st' = i_schedule st \<and>
          (get_exec_mode env = ''OMP_MPI'' \<or> get_exec_mode env = ''ONLY_MPI'') \<and>
          Warning ''Tiling through SLOPE requires deep halos in all PyOP2 sets.''
            \<in> set (fst (tile env st)))"
  using assms
  by (auto simp: tile_def Let_def split: option.splits if_splits sum.splits prod.splits)

text \<open>
  Claim C7, amended. Under the modes \<^verbatim>\<open>tile\<close> and \<^verbatim>\<open>only_tile\<close> the first two
  inspection requests for a fingerprint return the trivial schedule without running any
  fusion or tiling pass and leave the Inspector not initialized. The third request
  runs the passes of the mode. When they succeed, the tiling pass was among them, the
  Inspector is initialized and holds the schedule that was built, and a later request
  returns this schedule without running any pass again. The schedule is a tiled
  schedule over the schedule that the fusion passes left; or, when the execution mode
  is \<^verbatim>\<open>OMP_MPI\<close> or \<^verbatim>\<open>ONLY_MPI\<close> and the tiling pass gave up with the warning
  about deep halos, it is the schedule that the fusion passes left.
\<close>

theorem tiling_deferred_to_third_request:
  assumes "mode = ''tile'' \<or> mode = ''only_tile''"
  shows "\<exists>st1 st2.
     request env nm loop_chain mode opts (make_obj nm loop_chain mode opts) =
       ([], Inr (PlainSchedule nm (map kernel loop_chain), st1)) \<and> \<not> initialized st1 \<and>
     request env nm loop_chain mode opts st1 =
       ([], Inr (PlainSchedule nm (map kernel loop_chain), st2)) \<and> \<not> initialized st2 \<and>
     fst (request env nm loop_chain mode opts st2) =
       fst (run_passes env mode ((make_obj nm loop_chain mode opts)\<lparr>ninsps := Some 3\<rparr>)) \<and>
     fst (request env nm loop_chain mode opts st2) \<noteq> [] \<and>
     (\<forall>sched st3. snd (request env nm loop_chain mode opts st2) = Inr (sched, st3) \<longrightarrow>
        TilePass \<in> set (fst (request env nm loop_chain mode opts st2)) \<and> initialized st3 \<and>
        i_schedule st3 = sched \<and>
        request env nm loop_chain mode opts st3 = ([], Inr (sched, st3)) \<and>
        (\<exists>stf. snd (fusion_passes env mode
                      ((make_obj nm loop_chain mode opts)\<lparr>ninsps := Some 3\<rparr>)) = Inr stf \<and>
           ((\<exists>nm' kernels inspection executor opts'.
               sched = TilingSchedule nm' (i_schedule stf) kernels inspection executor opts') \<or>
            (sched = i_schedule stf \<and>
             (get_exec_mode env = ''OMP_MPI'' \<or> get_exec_mode env = ''ONLY_MPI'') \<and>
             Warning ''Tiling through SLOPE requires deep halos in all PyOP2 sets.''
               \<in> set (fst (request env nm loop_chain mode opts st2))))))"
proof -
  let ?st0 = "make_obj nm loop_chain mode opts"
  let ?del = "\<lambda>n. ?st0\<lparr>ninsps := Some n, i_name := None, i_loop_chain := None,
      i_mode := None, i_options := None\<rparr>"
  let ?st3 = "?st0\<lparr>ninsps := Some 3\<rparr>"
  have m: "mode \<in> set modes" "mode \<in> set tiling_modes"
    using assms by (auto simp: modes_def tiling_modes_def)
  have r1: "request env nm loop_chain mode opts ?st0 =
      ([], Inr (PlainSchedule nm (map kernel loop_chain), ?del 1))"
    using assms by (auto simp: request_def init_def inspect_def make_obj_def
        heuristic_skip_inspection_def del_fields_def Let_def)
  have r2: "request env nm loop_chain mode opts (?del 1) =
      ([], Inr (PlainSchedule nm (map kernel loop_chain), ?del 2))"
    using assms by (auto simp: request_def init_def inspect_def make_obj_def
        heuristic_skip_inspection_def del_fields_def Let_def)
  have i3: "init (?del 2) nm loop_chain mode opts = ?st0\<lparr>ninsps := Some 2\<rparr>"
    by (simp add: init_def make_obj_def)
  have h3: "heuristic_skip_inspection (?st0\<lparr>ninsps := Some 2\<rparr>) = Inr (False, ?st3)"
    by (simp add: heuristic_skip_inspection_def make_obj_def Let_def)
  have im: "i_mode ?st3 = Some mode" "\<not> initialized (?st0\<lparr>ninsps := Some 2\<rparr>)"
    by (simp_all add: make_obj_def)
  have r3: "request env nm loop_chain mode opts (?del 2) =
      (case snd (run_passes env mode ?st3) of
         Inl e \<Rightarrow> (fst (run_passes env mode ?st3), Inl e)
       | Inr s2 \<Rightarrow>
          (case del_fields (s2\<lparr>initialized := True\<rparr>) of
             Inl e \<Rightarrow> (fst (run_passes env mode ?st3), Inl e)
           | Inr s3 \<Rightarrow> (fst (run_passes env mode ?st3), Inr (i_schedule s3, s3))))"
    unfolding request_def i3 inspect_def h3 using m(1) im
    by simp
  have f3: "fst (request env nm loop_chain mode opts (?del 2)) = fst (run_passes env mode ?st3)"
    unfolding r3 by (simp split: sum.splits)
  have n3: "fst (request env nm loop_chain mode opts (?del 2)) \<noteq> []"
    unfolding f3 using run_passes_started[OF assms] by simp
  have l3: "TilePass \<in> set (fst (request env nm loop_chain mode opts (?del 2))) \<and> initialized s3 \<and>
        i_schedule s3 = sched \<and>
        request env nm loop_chain mode opts s3 = ([], Inr (sched, s3)) \<and>
        (\<exists>stf. snd (fusion_passes env mode ?st3) = Inr stf \<and>
           ((\<exists>nm' kernels inspection executor opts'.
               sched = TilingSchedule nm' (i_schedule stf) kernels inspection executor opts') \<or>
            (sched = i_schedule stf \<and>
             (get_exec_mode env = ''OMP_MPI'' \<or> get_exec_mode env = ''ONLY_MPI'') \<and>
             Warning ''Tiling through SLOPE requires deep halos in all PyOP2 sets.''
               \<in> set (fst (request env nm loop_chain mode opts (?del 2))))))"
    if "snd (request env nm loop_chain mode opts (?del 2)) = Inr (sched, s3)" for sched s3
  proof -
    from that obtain s2 where s2: "snd (run_passes env mode ?st3) = Inr s2"
      and d: "del_fields (s2\<lparr>initialized := True\<rparr>) = Inr s3" and sc: "sched = i_schedule s3"
      unfolding r3 by (auto split: sum.splits)
    from d have ini: "initialized s3" by (auto simp: del_fields_def split: if_splits)
    have "TilePass \<in> set (fst (run_passes env mode ?st3))"
      using run_passes_tiled[OF m(2) s2] .
    moreover have "request env nm loop_chain mode opts s3 = ([], Inr (sched, s3))"
      using ini sc by (simp add: request_def init_def inspect_def)
    moreover have "i_schedule s3 = sched" using sc by simp
    moreover have "\<exists>stf. snd (fusion_passes env mode ?st3) = Inr stf \<and>
           ((\<exists>nm' kernels inspection executor opts'.
               sched = TilingSchedule nm' (i_schedule stf) kernels inspection executor opts') \<or>
            (sched = i_schedule stf \<and>
             (get_exec_mode env = ''OMP_MPI'' \<or> get_exec_mode env = ''ONLY_MPI'') \<and>
             Warning ''Tiling through SLOPE requires deep halos in all PyOP2 sets.''
               \<in> set (fst (run_passes env mode ?st3))))"
    proof -
      from run_passes_split[OF m(2) s2] obtain stf where
        stf: "snd (fusion_passes env mode ?st3) = Inr stf" "snd (tile env stf) = Inr s2"
          "set (fst (tile env stf)) \<subseteq> set (fst (run_passes env mode ?st3))"
        by blast
      have ss: "sched = i_schedule s2"
        using d sc by (auto simp: del_fields_def split: if_splits)
      from tile_result[OF stf(2)] stf(1,3) ss show ?thesis by blast
    qed
    ultimately show ?thesis using ini f3 by simp
  qed
  have ni: "\<not> initialized (?del 1)" "\<not> initialized (?del 2)" by (simp_all add: make_obj_def)
  show ?thesis
    apply (rule exI[of _ "?del 1"], rule exI[of _ "?del 2"])
    using r1 r2 f3 n3 l3 ni by blast
qed

lemma sample_first: "request sample_env ''chain'' sample_chain ''tile'' sample_opts
     (make_obj ''chain'' sample_chain ''tile'' sample_opts) =
   ([], Inr (PlainSchedule ''chain'' (map kernel sample_chain), sample_deferred ''tile'' 1))"
  by code_simp

lemma sample_second: "request sample_env ''chain'' sample_chain ''tile'' sample_opts
     (sample_deferred ''tile'' 1) =
   ([], Inr (PlainSchedule ''chain'' (map kernel sample_chain), sample_deferred ''tile'' 2))"
  by code_simp

lemma sample_third: "request sample_env ''chain'' sample_chain ''tile'' sample_opts
     (sample_deferred ''tile'' 2) =
   ([SoftFusePass, HardFusePass, TilePass], Inr (i_schedule sample_built, sample_built))"
  by code_simp

lemma sample_third_schedule:
  "i_schedule sample_built =
     TilingSchedule ''chain'' sample_fusion_schedule (map kernel sample_chain) 1 2 sample_opts"
  by code_simp

lemma sample_mpi_third:
  "request sample_mpi_env ''chain'' sample_chain ''tile'' sample_opts
     (sample_deferred ''tile'' 2) =
   ([SoftFusePass, HardFusePass, TilePass,
     Warning ''Tiling through SLOPE requires deep halos in all PyOP2 sets.''],
    Inr (sample_fusion_schedule, sample_mpi_built))"
  by code_simp

text \<open>
  Three requests for the sample chain under \<^verbatim>\<open>tile\<close>: no pass, no pass, then soft
  fusion, hard fusion and tiling, which leave a tiled schedule over the schedule of
  the fusion passes; a fourth request returns what the third built. With the execution
  mode \<^verbatim>\<open>OMP_MPI\<close> the third request logs the warning and keeps the schedule of the
  fusion passes.
\<close>

theorem tiling_deferred_to_third_request_witness:
  "fst (request sample_env ''chain'' sample_chain ''tile'' sample_opts
     (make_obj ''chain'' sample_chain ''tile'' sample_opts)) = [] \<and>
   fst (request sample_env ''chain'' sample_chain ''tile'' sample_opts
     (sample_deferred ''tile'' 1)) = [] \<and>
   request sample_env ''chain'' sample_chain ''tile'' sample_opts (sample_deferred ''tile'' 2) =
     ([SoftFusePass, HardFusePass, TilePass], Inr (i_schedule sample_built, sample_built)) \<and>
   i_schedule sample_built =
     TilingSchedule ''chain'' sample_fusion_schedule (map kernel sample_chain) 1 2 sample_opts \<and>
   initialized sample_built \<and>
   request sample_env ''chain'' sample_chain ''tile'' sample_opts sample_built =
     ([], Inr (i_schedule sample_built, sample_built)) \<and>
   request sample_mpi_env ''chain'' sample_chain ''tile'' sample_opts
     (sample_deferred ''tile'' 2) =
   ([SoftFusePass, HardFusePass, TilePass,
     Warning ''Tiling through SLOPE requires deep halos in all PyOP2 sets.''],
    Inr (sample_fusion_schedule, sample_mpi_built))"
proof -
  have "''tile'' = ''tile'' \<or> ''tile'' = ''only_tile''" by simp
  from tiling_deferred_to_third_request[OF this, of sample_env "''chain''" sample_chain
      sample_opts]
  obtain st1 st2 where
    a: "request sample_env ''chain'' sample_chain ''tile'' sample_opts
         (make_obj ''chain'' sample_chain ''tile'' sample_opts) =
        ([], Inr (PlainSchedule ''chain'' (map kernel sample_chain), st1))" and
    b: "request sample_env ''chain'' sample_chain ''tile'' sample_opts st1 =
        ([], Inr (PlainSchedule ''chain'' (map kernel sample_chain), st2))" and
    c: "\<forall>sched st3. snd (request sample_env ''chain'' sample_chain ''tile'' sample_opts st2) =
          Inr (sched, st3) \<longrightarrow>
        initialized st3 \<and>
        request sample_env ''chain'' sample_chain ''tile'' sample_opts st3 = ([], Inr (sched, st3))"
    by blast
  from a sample_first have 1: "st1 = sample_deferred ''tile'' 1" by simp
  from b 1 sample_second have 2: "st2 = sample_deferred ''tile'' 2" by simp
  from c 2 sample_third have "initialized sample_built \<and>
     request sample_env ''chain'' sample_chain ''tile'' sample_opts sample_built =
       ([], Inr (i_schedule sample_built, sample_built))"
    by simp
  with sample_first sample_second sample_third sample_third_schedule sample_mpi_third
  show ?thesis by simp
qed

text \<open>
  Claim C8. Tiling is requested, the execution mode needs deep halos (\<^verbatim>\<open>OMP_MPI\<close>
  or \<^verbatim>\<open>ONLY_MPI\<close>) and the iteration set of some loop of the chain has none. Then
  \<open>tile\<close> logs one warning, raises nothing and returns the Inspector as it was, so
  the passes of the mode end with the state, and the schedule, that the fusion passes
  left.
\<close>

theorem tile_skipped_without_deep_halo:
  assumes "get_exec_mode env = ''OMP_MPI'' \<or> get_exec_mode env = ''ONLY_MPI''"
    and "mode \<in> set tiling_modes"
    and "fusion_passes env mode st = (evs, Inr stf)"
    and "i_loop_chain stf = Some loop_chain" and "i_options stf = Some opts"
    and "\<exists>l\<in>set loop_chain. deep_size (its_iterset (it_space l)) = None"
  shows "tile env stf =
           ([Warning ''Tiling through SLOPE requires deep halos in all PyOP2 sets.''], Inr stf) \<and>
         run_passes env mode st =
           (evs @ [TilePass, Warning ''Tiling through SLOPE requires deep halos in all PyOP2 sets.''],
            Inr stf)"
proof -
  have na: "\<not> list_all (\<lambda>l. deep_size (its_iterset (it_space l)) \<noteq> None) loop_chain"
    using assms(6) by (auto simp: list_all_iff)
  have t: "tile env stf =
           ([Warning ''Tiling through SLOPE requires deep halos in all PyOP2 sets.''], Inr stf)"
    using assms(1,4,5) na by (auto simp: tile_def Let_def)
  show ?thesis using t assms(2,3) by (simp add: run_passes_def then_pass_def)
qed

lemma sample_fusion_passes:
  "fusion_passes sample_mpi_env ''tile'' (make_obj ''chain'' sample_chain ''tile'' sample_opts) =
     ([SoftFusePass, HardFusePass], Inr sample_fused)"
  by code_simp

lemma sample_fused_fields:
  "i_loop_chain sample_fused = Some sample_chain \<and> i_options sample_fused = Some sample_opts"
  by code_simp

lemma sample_chain_no_deep: "\<exists>l\<in>set sample_chain. deep_size (its_iterset (it_space l)) = None"
  by code_simp

text \<open>
  The sample chain under \<^verbatim>\<open>tile\<close> with execution mode \<^verbatim>\<open>OMP_MPI\<close>: none of its
  sets has deep halos.
\<close>

theorem tile_skipped_without_deep_halo_witness:
  "get_exec_mode sample_mpi_env = ''OMP_MPI'' \<and>
   fusion_passes sample_mpi_env ''tile'' (make_obj ''chain'' sample_chain ''tile'' sample_opts) =
     ([SoftFusePass, HardFusePass], Inr sample_fused) \<and>
   run_passes sample_mpi_env ''tile'' (make_obj ''chain'' sample_chain ''tile'' sample_opts) =
     ([SoftFusePass, HardFusePass, TilePass,
       Warning ''Tiling through SLOPE requires deep halos in all PyOP2 sets.''],
      Inr sample_fused)"
proof -
  have m: "get_exec_mode sample_mpi_env = ''OMP_MPI''"
    by (simp add: sample_mpi_env_def)
  then have m': "get_exec_mode sample_mpi_env = ''OMP_MPI'' \<or>
      get_exec_mode sample_mpi_env = ''ONLY_MPI''" by simp
  have t: "''tile'' \<in> set tiling_modes" by (simp add: tiling_modes_def)
  from tile_skipped_without_deep_halo[OF m' t sample_fusion_passes
      conjunct1[OF sample_fused_fields] conjunct2[OF sample_fused_fields] sample_chain_no_deep]
    m sample_fusion_passes
  show ?thesis by simp
qed

text \<open>
  Claim C9 does not hold of the code. For a loop that iterates over a \<^verbatim>\<open>Subset\<close>,
  \<open>create_slope_set\<close> raises \<^verbatim>\<open>NameError\<close> before any set or map is registered, and
  so does the tiling pass.
\<close>

theorem tile_over_subset_raises:
  "is_Subset sample_subset \<and>
   create_slope_set ''SEQUENTIAL'' sample_subset False [] = Inl NameError \<and>
   register_loop ''SEQUENTIAL'' False loop_W ([], [], []) = Inl NameError \<and>
   tile sample_env (make_obj ''chain'' [loop_W] ''only_tile'' sample_opts) = ([], Inl NameError)"
  by code_simp

section \<open>Properties of the kernel synthesis for soft fusion\<close>

lemma digit_value_digit: "n < 10 \<Longrightarrow> digit_value (''0123456789'' ! n) = n"
  by (auto simp: digit_value_def numeral_eq_Suc less_Suc_eq)

lemma nat_of_string_of_nat: "nat_of_string (string_of_nat n) = n"
proof (induction n rule: string_of_nat.induct)
  case (1 n)
  show ?case
  proof (cases "n < 10")
    case True
    then show ?thesis
      by (subst string_of_nat.simps) (simp add: nat_of_string_def digit_value_digit)
  next
    case False
    with 1 have "nat_of_string (string_of_nat (n div 10)) = n div 10" by simp
    moreover have "digit_value (''0123456789'' ! (n mod 10)) = n mod 10"
      by (rule digit_value_digit) simp
    ultimately show ?thesis using False
      by (subst string_of_nat.simps) (simp add: nat_of_string_def)
  qed
qed

lemma string_of_nat_inj: "string_of_nat m = string_of_nat n \<Longrightarrow> m = n"
  using nat_of_string_of_nat by metis

lemma uniquify_distinct:
  "distinct (map d_sym ds) \<Longrightarrow> \<forall>d\<in>set ds. ren (d_sym d) = d_sym d \<Longrightarrow>
   uniquify u ds ren =
     (\<lambda>n. if n \<in> d_sym ` set ds then ren n @ ''_'' @ string_of_nat u else ren n)"
proof (induction ds arbitrary: ren)
  case Nil
  then show ?case by simp
next
  case (Cons d ds)
  let ?ren = "ren(d_sym d := d_sym d @ ''_'' @ string_of_nat u)"
  have k: "ren (d_sym d) = d_sym d" using Cons.prems(2) by simp
  have r: "\<forall>d'\<in>set ds. ?ren (d_sym d') = d_sym d'"
    using Cons.prems by (auto simp: image_iff)
  have dd: "distinct (map d_sym ds)" using Cons.prems(1) by simp
  have nd: "d_sym d \<notin> d_sym ` set ds" using Cons.prems(1) by simp
  have "uniquify u (d # ds) ren = uniquify u ds ?ren"
    using k by (simp add: Let_def)
  also have "\<dots> =
     (\<lambda>n. if n \<in> d_sym ` set ds then ?ren n @ ''_'' @ string_of_nat u else ?ren n)"
    by (rule Cons.IH[OF dd r])
  also have "\<dots> =
     (\<lambda>n. if n \<in> d_sym ` set (d # ds) then ren n @ ''_'' @ string_of_nat u else ren n)"
    using nd k by (auto simp: fun_eq_iff)
  finally show ?case .
qed

lemma uniquify_suffix:
  "distinct (map d_sym (fd_args f)) \<Longrightarrow> uniquify u (fd_args f) (\<lambda>n. n) = suffix_params u f"
  using uniquify_distinct[of "fd_args f" "\<lambda>n. n" u] by (simp add: suffix_params_def fun_eq_iff)


lemma fuse_into_spec:
  "map find_fundecl fas = map Inr fs \<Longrightarrow>
   fuse_into base u fas =
     Inr (base\<lparr>fd_name := foldl (\<lambda>n f. n @ ''_'' @ fd_name f) (fd_name base) fs,
        fd_args := fd_args base @
          concat (map (\<lambda>(uid, f). map (rename_decl (uniquify uid (fd_args f) (\<lambda>n. n))) (fd_args f))
                    (enumerate u fs)),
        fd_body := fd_body base @
          concat (map (\<lambda>(uid, f). FlatBlock marker #
                      map (rename_node (uniquify uid (fd_args f) (\<lambda>n. n))) (fd_body f))
                    (enumerate u fs))\<rparr>)"
proof (induction fas arbitrary: base u fs)
  case Nil
  then show ?case by simp
next
  case (Cons fa fas)
  then obtain f fs' where fs: "fs = f # fs'" and f: "find_fundecl fa = Inr f"
    and r: "map find_fundecl fas = map Inr fs'" by (cases fs) auto
  show ?case
    unfolding fs using f Cons.IH[OF r] by (simp add: Let_def)
qed

lemma enumerate_suffix:
  "\<forall>f\<in>set fs. distinct (map d_sym (fd_args f)) \<Longrightarrow>
   map (\<lambda>(uid, f). map (rename_decl (uniquify uid (fd_args f) (\<lambda>n. n))) (fd_args f)) (enumerate u fs)
     = map (\<lambda>(uid, f). appended_params uid f) (enumerate u fs) \<and>
   map (\<lambda>(uid, f). FlatBlock marker #
          map (rename_node (uniquify uid (fd_args f) (\<lambda>n. n))) (fd_body f)) (enumerate u fs)
     = map (\<lambda>(uid, f). appended_body uid f) (enumerate u fs)"
  by (induction fs arbitrary: u)
     (simp_all add: uniquify_suffix appended_params_def appended_body_def)

lemma filter_binding_data:
  "(\<lambda>p. data (fst p)) ` set (filter_binding seen as ds) =
     (\<lambda>p. data (fst p)) ` set (zip as ds) - set seen"
  by (induction seen as ds rule: filter_binding.induct) auto

lemma filter_binding_distinct:
  "distinct (map (\<lambda>p. data (fst p)) (filter_binding seen as ds))"
proof (induction seen as ds rule: filter_binding.induct)
  case (1 seen a as d ds)
  have "data a \<notin> (\<lambda>p. data (fst p)) ` set (filter_binding (data a # seen) as ds)"
    unfolding filter_binding_data by simp
  with 1 show ?case by auto
qed simp_all

lemma filter_binding_subseq: "subseq (filter_binding seen as ds) (zip as ds)"
  by (induction seen as ds rule: filter_binding.induct) auto


text \<open>
  Claim C4. The kernel synthesized for a group takes the function declaration of the
  first loop's kernel AST as base. For the later loops, in the order of the group and
  numbered from 1, the base name is extended by an underscore and the kernel's name,
  the kernel's parameters are appended to the signature and its statements, after a
  marker comment, to the body, every reference to one of its parameters (whose names
  are distinct) renamed by the suffix made of an underscore and the kernel's number;
  different numbers give different suffixes. Afterwards duplicate parameters are
  eliminated: the parameters kept are, in order, those of a selection of the positional
  pairs of loop arguments and parameters in which every data reference of these pairs
  occurs exactly once. The fused body is the body of the first kernel followed by the
  marked bodies of the later kernels in chain order.
\<close>

theorem soft_fusion_kernel_shape:
  assumes "map (\<lambda>l. find_fundecl (select_ast (kernel l))) loops = map Inr (f0 # fs)"
    and "\<forall>f\<in>set fs. distinct (map d_sym (fd_args f))"
  shows "\<exists>fk fused binding.
     build_soft_fusion_kernel loops loop_chain_index = Inr fk \<and>
     fk_kernels fk = map kernel loops \<and> fk_index fk = loop_chain_index \<and>
     find_fundecl (fk_ast fk) = Inr fused \<and>
     fd_name fused = foldl (\<lambda>n f. n @ ''_'' @ fd_name f) (fd_name f0) fs \<and>
     fd_body fused =
       fd_body f0 @ concat (map (\<lambda>(uid, f). appended_body uid f) (enumerate 1 fs)) \<and>
     fd_args fused = map snd binding \<and>
     subseq binding
       (zip (concat (map args loops))
            (fd_args f0 @ concat (map (\<lambda>(uid, f). appended_params uid f) (enumerate 1 fs)))) \<and>
     distinct (map (\<lambda>p. data (fst p)) binding) \<and>
     (\<lambda>p. data (fst p)) ` set binding =
       (\<lambda>p. data (fst p)) ` set
         (zip (concat (map args loops))
            (fd_args f0 @ concat (map (\<lambda>(uid, f). appended_params uid f) (enumerate 1 fs)))) \<and>
     inj string_of_nat"
proof -
  from assms(1) obtain l0 rest where l: "loops = l0 # rest"
    and f0: "find_fundecl (select_ast (kernel l0)) = Inr f0"
    and r: "map find_fundecl (map select_ast (map kernel rest)) = map Inr fs"
    by (cases loops) (auto simp: comp_def)
  let ?ps = "fd_args f0 @ concat (map (\<lambda>(uid, f). appended_params uid f) (enumerate 1 fs))"
  let ?pre = "f0\<lparr>fd_name := foldl (\<lambda>n f. n @ ''_'' @ fd_name f) (fd_name f0) fs,
        fd_args := ?ps,
        fd_body := fd_body f0 @
          concat (map (\<lambda>(uid, f). appended_body uid f) (enumerate 1 fs))\<rparr>"
  let ?b = "filter_binding [] (concat (map args loops)) ?ps"
  have fi: "fuse_into f0 1 (map select_ast (map kernel rest)) = Inr ?pre"
    by (simp only: fuse_into_spec[OF r] conjunct1[OF enumerate_suffix[OF assms(2)]]
        conjunct2[OF enumerate_suffix[OF assms(2)]])
  let ?fk = "\<lparr>fk_kernels = map kernel loops,
              fk_ast = (select_ast (kernel l0))\<lparr>fundecls :=
                 kernel_args loops ?pre # tl (fundecls (select_ast (kernel l0)))\<rparr>,
              fk_index = loop_chain_index\<rparr>"
  have b: "build_soft_fusion_kernel loops loop_chain_index = Inr ?fk"
    using l f0 fi by (simp add: build_soft_fusion_kernel_def Let_def)
  have ff: "find_fundecl (fk_ast ?fk) = Inr (kernel_args loops ?pre)"
    by (simp add: find_fundecl_def)
  have n: "fd_name (kernel_args loops ?pre) =
      foldl (\<lambda>n f. n @ ''_'' @ fd_name f) (fd_name f0) fs"
    by (simp add: kernel_args_def)
  have bd: "fd_body (kernel_args loops ?pre) =
      fd_body f0 @ concat (map (\<lambda>(uid, f). appended_body uid f) (enumerate 1 fs))"
    by (simp add: kernel_args_def)
  have a: "fd_args (kernel_args loops ?pre) = map snd ?b"
    by (simp add: kernel_args_def)
  have inj: "inj string_of_nat"
    using string_of_nat_inj by (auto simp: inj_on_def)
  have k: "fk_kernels ?fk = map kernel loops" "fk_index ?fk = loop_chain_index" by simp_all
  from b k ff n bd a filter_binding_subseq[of "[]" "concat (map args loops)" ?ps]
    filter_binding_distinct[of "[]" "concat (map args loops)" ?ps]
    filter_binding_data[of "[]" "concat (map args loops)" ?ps] inj
  show ?thesis by (intro exI[of _ ?fk] exI[of _ "kernel_args loops ?pre"] exI[of _ ?b]) simp
qed

lemma sample_group_fundecls:
  "map (\<lambda>l. find_fundecl (select_ast (kernel l))) [loop_A, loop_B] = map Inr [fd_A, fd_B]"
  by code_simp

lemma sample_group_distinct: "\<forall>f\<in>set [fd_B]. distinct (map d_sym (fd_args f))"
  by (simp add: fd_B_def)

lemma sample_group_fused:
  "map_sum id (\<lambda>fk. find_fundecl (fk_ast fk)) (build_soft_fusion_kernel [loop_A, loop_B] 0) =
     Inr (Inr \<lparr>fd_ret = ''void'', fd_name = ''ka_kb'',
          fd_args = [Decl ''double*'' ''x'', Decl ''double*'' ''y'', Decl ''double*'' ''z_1''],
          fd_body = [Node ''Assign'' [Symbol ''y'', Symbol ''x''], FlatBlock marker,
                     Node ''Assign'' [Symbol ''z_1'', Symbol ''y_1'']]\<rparr>)"
  by code_simp

text \<open>
  The end-to-end scenario of the specification: \<open>loop_A\<close> reads x and writes y,
  \<open>loop_B\<close> reads y and increments z, both directly over the set S. The fused kernel
  is named \<^verbatim>\<open>ka_kb\<close>, its body holds the statement of the first kernel, the marker
  and the renamed statement of the second, and y occurs once among its parameters.
\<close>

theorem soft_fusion_kernel_shape_witness:
  "map (\<lambda>l. find_fundecl (select_ast (kernel l))) [loop_A, loop_B] = map Inr [fd_A, fd_B] \<and>
   (\<exists>fk. build_soft_fusion_kernel [loop_A, loop_B] 0 = Inr fk \<and>
      find_fundecl (fk_ast fk) =
       Inr \<lparr>fd_ret = ''void'', fd_name = ''ka_kb'',
          fd_args = [Decl ''double*'' ''x'', Decl ''double*'' ''y'', Decl ''double*'' ''z_1''],
          fd_body = [Node ''Assign'' [Symbol ''y'', Symbol ''x''], FlatBlock marker,
                     Node ''Assign'' [Symbol ''z_1'', Symbol ''y_1'']]\<rparr>)"
proof -
  from soft_fusion_kernel_shape[OF sample_group_fundecls sample_group_distinct, of 0]
  obtain fk where "build_soft_fusion_kernel [loop_A, loop_B] 0 = Inr fk" by blast
  with sample_group_fused sample_group_fundecls show ?thesis by simp
qed

section \<open>Properties of the execution plan\<close>














end
